theory Spec2Isabelle
  imports Main
begin

section \<open>Values, objects and notifications\<close>

text \<open>
  Session ids and user ids are JavaScript numbers (\<open>sid: number\<close>, \<open>uid: number\<close>); the
  model takes the integers. Objects have identity: a Session is reached through a
  reference, here an address into an object store.
\<close>

type_synonym sid = int
type_synonym uid = int
type_synonym addr = nat

text \<open>
  The values that travel through \<open>any\<close>-typed parameters (\<open>reason\<close>, \<open>cb\<close>, settings
  values). \<open>Ref\<close> is a reference to a plain object, \<open>Fn\<close> a function value.
\<close>

datatype jsval = Undefined | Null | Num int | Str string | Bool bool | Ref addr | Fn nat

text \<open>A plain object: its own enumerable properties in insertion order.\<close>

type_synonym object = "(string \<times> jsval) list"

text \<open>\<open>if (v)\<close> on a value.\<close>

fun truthy :: "jsval \<Rightarrow> bool" where
  "truthy Undefined = False"
| "truthy Null = False"
| "truthy (Num n) = (n \<noteq> 0)"
| "truthy (Str s) = (s \<noteq> [])"
| "truthy (Bool b) = b"
| "truthy (Ref a) = True"
| "truthy (Fn f) = True"

text \<open>\<open>typeof v === 'function'\<close>.\<close>

fun isFunction :: "jsval \<Rightarrow> bool" where
  "isFunction (Fn f) = True"
| "isFunction v = False"

text \<open>
  \<open>if (session.uid)\<close> on the \<open>uid\<close> field, which holds \<open>null\<close> (\<open>None\<close>) or a number:
  \<open>null\<close> and the number \<open>0\<close> are falsy.
\<close>

fun truthy_uid :: "uid option \<Rightarrow> bool" where
  "truthy_uid None = False"
| "truthy_uid (Some u) = (u \<noteq> 0)"

text \<open>\<open>ST_INITED = 0\<close>, \<open>ST_CLOSED = 1\<close>.\<close>

datatype sstate = ST_INITED | ST_CLOSED

text \<open>
  class Session. \<open>id'\<close> is the field \<open>id\<close>, \<open>socket\<close> is \<open>__socket__\<close> (the transport is
  external: only its handle is kept), \<open>state\<close> is \<open>__state__\<close>. The field
  \<open>__sessionService__\<close> is the one registry of the model. The registry never deletes a
  field of a Session, so its operations work on the fields as the class declares them.
\<close>

record session =
  id' :: sid
  frontendId :: string
  uid :: "uid option"
  settings :: object
  socket :: addr
  state :: sstate

text \<open>
  The fields a FrontendSession copies from its Session (\<open>FRONTEND_SESSION_FIELDS\<close>, the
  settings copy and \<open>__session__\<close>), as carried by the \<open>closed\<close> notification.
\<close>

record frontend_session =
  fs_id :: sid
  fs_frontendId :: string
  fs_uid :: "uid option"
  fs_settings :: object
  fs_session :: addr

text \<open>
  The four \<open>new Error(...)\<close> values of the service, by kind:
  \<open>'session does not exist, sid: ' + sid\<close>,
  \<open>'session has already bound with ' + session.uid\<close>,
  \<open>'singleSession is enabled, and session has already bound with uid: ' + uid\<close>,
  \<open>'session has not bind with ' + session.uid\<close>.
\<close>

datatype error =
    SessionNotFound sid
  | AlreadyBound "uid option"
  | SingleSessionViolation uid
  | NotBound "uid option"

datatype exn = TypeError

text \<open>
  What \<open>process.nextTick\<close> is given: \<open>Call cb e\<close> runs \<open>cb(e)\<close> (\<open>cb()\<close> when \<open>e\<close> is
  \<open>None\<close>), \<open>Invoke cb e\<close> runs \<open>invokeCallback(cb, e)\<close>, which skips a \<open>cb\<close> that is not a
  function, \<open>Disconnect s\<close> runs \<open>disconnect()\<close> on socket \<open>s\<close>.
\<close>

datatype task =
    Call jsval "error option"
  | Invoke jsval "error option"
  | Disconnect addr

text \<open>
  Everything an operation does to its collaborators, in order: notifications emitted on a
  Session (listeners are external), the \<open>closing\<close> notification on the socket, a callback
  run inside the call (\<open>Now\<close>), a task handed to \<open>process.nextTick\<close>.
\<close>

datatype event =
    EmitBind addr uid
  | EmitUnbind addr uid
  | EmitClosed addr frontend_session jsval
  | SocketClosing addr jsval
  | Now jsval "error option"
  | NextTick task

section \<open>Plain objects\<close>

text \<open>\<open>obj[k] = v\<close>: replaces the value of an existing property, else adds it last.\<close>

fun put :: "string \<Rightarrow> jsval \<Rightarrow> object \<Rightarrow> object" where
  "put k v [] = [(k, v)]"
| "put k v (p # ps) = (if fst p = k then (k, v) # ps else p # put k v ps)"

text \<open>\<open>obj[k]\<close>: \<open>undefined\<close> for a property that is not there.\<close>

definition getprop :: "object \<Rightarrow> string \<Rightarrow> jsval" where
  "getprop obj k = (case map_of obj k of None \<Rightarrow> Undefined | Some v \<Rightarrow> v)"

text \<open>\<open>delete obj[k]\<close>.\<close>

definition del :: "string \<Rightarrow> object \<Rightarrow> object" where
  "del k obj = filter (\<lambda>p. fst p \<noteq> k) obj"

text \<open>\<open>dclone\<close>: a new object that receives every property of \<open>src\<close>, one level deep.\<close>

definition dclone :: "object \<Rightarrow> object" where
  "dclone src = fold (\<lambda>f res. put f (getprop src f) res) (map fst src) []"

section \<open>The registry\<close>

text \<open>
  class SessionService with the Session objects it refers to. \<open>sessions\<close> and \<open>uidMap\<close>
  hold references; \<open>heap\<close> is the object store, \<open>fresh\<close> the next address \<open>new Session\<close>
  takes; \<open>trace\<close> collects the events.
\<close>

record world =
  singleSession :: bool
  sessions :: "sid \<rightharpoonup> addr"
  uidMap :: "uid \<rightharpoonup> addr list"
  heap :: "addr \<Rightarrow> session"
  fresh :: addr
  trace :: "event list"

definition emit :: "event \<Rightarrow> world \<Rightarrow> world" where
  "emit e w = w\<lparr>trace := trace w @ [e]\<rparr>"

text \<open>The Session constructor.\<close>

definition Session :: "sid \<Rightarrow> string \<Rightarrow> addr \<Rightarrow> session" where
  "Session sid fid sock =
     \<lparr>id' = sid, frontendId = fid, uid = None, settings = [], socket = sock,
      state = ST_INITED\<rparr>"

text \<open>
  The SessionService constructor. No Session object exists yet: the cells of \<open>heap\<close> from
  \<open>fresh\<close> on are not objects, and no table refers to them.
\<close>

definition SessionService :: "bool \<Rightarrow> world" where
  "SessionService single =
     \<lparr>singleSession = single, sessions = Map.empty, uidMap = Map.empty,
      heap = (\<lambda>a. Session 0 [] 0), fresh = 0, trace = []\<rparr>"

definition create :: "sid \<Rightarrow> string \<Rightarrow> addr \<Rightarrow> world \<Rightarrow> addr \<times> world" where
  "create sid fid sock w =
     (let a = fresh w; session = Session sid fid sock
      in (a, w\<lparr>heap := (heap w)(a := session), fresh := Suc a,
               sessions := (sessions w)(id' session \<mapsto> a)\<rparr>))"

text \<open>Session.bind and Session.unbind: the field and the notification.\<close>

definition Session_bind :: "addr \<Rightarrow> uid \<Rightarrow> world \<Rightarrow> world" where
  "Session_bind a u w =
     emit (EmitBind a u) (w\<lparr>heap := (heap w)(a := (heap w a)\<lparr>uid := Some u\<rparr>)\<rparr>)"

definition Session_unbind :: "addr \<Rightarrow> uid \<Rightarrow> world \<Rightarrow> world" where
  "Session_unbind a u w =
     emit (EmitUnbind a u) (w\<lparr>heap := (heap w)(a := (heap w a)\<lparr>uid := None\<rparr>)\<rparr>)"

text \<open>The loop of bind: is there an \<open>i\<close> with \<open>sessions[i].id === session.id\<close>?\<close>

primrec has_id :: "(addr \<Rightarrow> session) \<Rightarrow> sid \<Rightarrow> addr list \<Rightarrow> bool" where
  "has_id h i [] = False"
| "has_id h i (a # as) = (if id' (h a) = i then True else has_id h i as)"

text \<open>
  The loop of unbind and remove: \<open>splice(i, 1)\<close> at the first \<open>i\<close> with
  \<open>sessions[i].id === sid\<close>; \<open>None\<close> when the loop ends without a match.
\<close>

primrec splice_id :: "(addr \<Rightarrow> session) \<Rightarrow> sid \<Rightarrow> addr list \<Rightarrow> addr list option" where
  "splice_id h i [] = None"
| "splice_id h i (a # as) =
     (if id' (h a) = i then Some as else map_option (Cons a) (splice_id h i as))"

text \<open>
  bind. \<open>sessions\<close> is the bucket of the uid, put into the table first when there is none
  (\<open>sessions = this.uidMap[uid] = []\<close>); \<open>cb()\<close> on a value that is not a function throws.
\<close>

definition bind :: "sid \<Rightarrow> uid \<Rightarrow> jsval \<Rightarrow> world \<Rightarrow> exn option \<times> world" where
  "bind sid u cb w =
     (case sessions w sid of
        None \<Rightarrow> (None, emit (NextTick (Call cb (Some (SessionNotFound sid)))) w)
      | Some a \<Rightarrow>
          let session = heap w a in
          if truthy_uid (uid session) then
            if uid session = Some u then
              (if isFunction cb then (None, emit (Now cb None) w) else (Some TypeError, w))
            else (None, emit (NextTick (Call cb (Some (AlreadyBound (uid session))))) w)
          else if singleSession w \<and> uidMap w u \<noteq> None then
            (None, emit (NextTick (Call cb (Some (SingleSessionViolation u)))) w)
          else
            let sessions' = (case uidMap w u of None \<Rightarrow> [] | Some b \<Rightarrow> b);
                w0 = w\<lparr>uidMap := (uidMap w)(u \<mapsto> sessions')\<rparr>
            in if has_id (heap w0) (id' session) sessions' then
                 (None, emit (NextTick (Call cb None)) w0)
               else
                 let w1 = Session_bind a u (w0\<lparr>uidMap := (uidMap w0)(u \<mapsto> sessions' @ [a])\<rparr>)
                 in (None, if truthy cb then emit (NextTick (Call cb None)) w1 else w1))"

definition unbind :: "sid \<Rightarrow> uid \<Rightarrow> jsval \<Rightarrow> world \<Rightarrow> world" where
  "unbind sid u cb w =
     (case sessions w sid of
        None \<Rightarrow> emit (NextTick (Call cb (Some (SessionNotFound sid)))) w
      | Some a \<Rightarrow>
          let session = heap w a in
          if \<not> truthy_uid (uid session) \<or> uid session \<noteq> Some u then
            emit (NextTick (Call cb (Some (NotBound (uid session))))) w
          else
            let w1 = (case uidMap w u of
                        None \<Rightarrow> w
                      | Some bucket \<Rightarrow>
                          let bucket' = (case splice_id (heap w) sid bucket of
                                           None \<Rightarrow> bucket | Some b \<Rightarrow> b)
                          in if bucket' = [] then w\<lparr>uidMap := (uidMap w)(u := None)\<rparr>
                             else w\<lparr>uidMap := (uidMap w)(u \<mapsto> bucket')\<rparr>);
                w2 = Session_unbind a u w1
            in if truthy cb then emit (NextTick (Call cb None)) w2 else w2)"

definition getByUid :: "uid \<Rightarrow> world \<Rightarrow> addr list option" where
  "getByUid u w = uidMap w u"

text \<open>
  remove. \<open>this.uidMap[uid]\<close> with \<open>uid\<close> \<open>null\<close> reads the key \<open>"null"\<close>, which no bucket
  has.
\<close>

definition remove :: "sid \<Rightarrow> world \<Rightarrow> world" where
  "remove sid w =
     (case sessions w sid of
        None \<Rightarrow> w
      | Some a \<Rightarrow>
          let session = heap w a;
              w1 = w\<lparr>sessions := (sessions w)(id' session := None)\<rparr>
          in (case uid session of
                None \<Rightarrow> w1
              | Some u \<Rightarrow>
                  (case uidMap w1 u of
                     None \<Rightarrow> w1
                   | Some bucket \<Rightarrow>
                       (case splice_id (heap w1) sid bucket of
                          None \<Rightarrow> w1
                        | Some bucket' \<Rightarrow>
                            if bucket' = [] then w1\<lparr>uidMap := (uidMap w1)(u := None)\<rparr>
                            else w1\<lparr>uidMap := (uidMap w1)(u \<mapsto> bucket')\<rparr>))))"

text \<open>invokeCallback with at most one argument after \<open>cb\<close>, run inside the call.\<close>

definition invokeCallback :: "jsval \<Rightarrow> error option \<Rightarrow> world \<Rightarrow> world" where
  "invokeCallback cb e w = (if isFunction cb then emit (Now cb e) w else w)"

text \<open>
  Session.set: \<open>key\<close> is a property name, or an object (\<open>isObject(key)\<close>) whose properties
  are all stored.
\<close>

datatype setkey = Name string | Entries object

fun set_s :: "setkey \<Rightarrow> jsval \<Rightarrow> session \<Rightarrow> session" where
  "set_s (Entries key) v s =
     s\<lparr>settings := fold (\<lambda>i st. put i (getprop key i) st) (map fst key) (settings s)\<rparr>"
| "set_s (Name key) v s = s\<lparr>settings := put key v (settings s)\<rparr>"

definition import_s :: "sid \<Rightarrow> setkey \<Rightarrow> jsval \<Rightarrow> jsval \<Rightarrow> world \<Rightarrow> world" where
  "import_s sid key v cb w =
     (case sessions w sid of
        None \<Rightarrow> invokeCallback cb (Some (SessionNotFound sid)) w
      | Some a \<Rightarrow> invokeCallback cb None (w\<lparr>heap := (heap w)(a := set_s key v (heap w a))\<rparr>))"

definition importAll :: "sid \<Rightarrow> object \<Rightarrow> jsval \<Rightarrow> world \<Rightarrow> world" where
  "importAll sid sets cb w =
     (case sessions w sid of
        None \<Rightarrow> invokeCallback cb (Some (SessionNotFound sid)) w
      | Some a \<Rightarrow>
          invokeCallback cb None
            (w\<lparr>heap := (heap w)
                 (a := fold (\<lambda>f s. set_s (Name f) (getprop sets f) s) (map fst sets) (heap w a))\<rparr>))"

text \<open>Session.toFrontendSession, for the Session at address \<open>a\<close>.\<close>

definition toFrontendSession :: "addr \<Rightarrow> session \<Rightarrow> frontend_session" where
  "toFrontendSession a s =
     \<lparr>fs_id = id' s, fs_frontendId = frontendId s, fs_uid = uid s,
      fs_settings = dclone (settings s), fs_session = a\<rparr>"

text \<open>Session.closed, on the Session object at address \<open>a\<close>.\<close>

definition closed :: "addr \<Rightarrow> jsval \<Rightarrow> world \<Rightarrow> world" where
  "closed a reason w =
     (if state (heap w a) = ST_CLOSED then w
      else
        let w1 = w\<lparr>heap := (heap w)(a := (heap w a)\<lparr>state := ST_CLOSED\<rparr>)\<rparr>;
            w2 = remove (id' (heap w1 a)) w1;
            w3 = emit (EmitClosed a (toFrontendSession a (heap w2 a)) reason) w2;
            w4 = emit (SocketClosing (socket (heap w3 a)) reason) w3
        in emit (NextTick (Disconnect (socket (heap w4 a)))) w4)"

text \<open>
  The second loop of kick: \<open>this.sessions[sid].closed(reason)\<close> for each collected sid;
  the call on an unregistered sid is a call on \<open>undefined\<close> and throws.
\<close>

fun closeAll :: "sid list \<Rightarrow> jsval \<Rightarrow> world \<Rightarrow> exn option \<times> world" where
  "closeAll [] reason w = (None, w)"
| "closeAll (sid # sids) reason w =
     (case sessions w sid of
        None \<Rightarrow> (Some TypeError, w)
      | Some a \<Rightarrow> closeAll sids reason (closed a reason w))"

definition kick :: "uid \<Rightarrow> jsval \<Rightarrow> jsval \<Rightarrow> world \<Rightarrow> exn option \<times> world" where
  "kick u reason cb w =
     (let cb1 = (if isFunction reason then reason else cb);
          reason1 = (if isFunction reason then Str ''kick'' else reason)
      in case getByUid u w of
           Some bucket \<Rightarrow>
             let sids = map (\<lambda>a. id' (heap w a)) bucket
             in (case closeAll sids reason1 w of
                   (Some e, w') \<Rightarrow> (Some e, w')
                 | (None, w') \<Rightarrow> (None, emit (NextTick (Invoke cb1 None)) w'))
         | None \<Rightarrow> (None, emit (NextTick (Invoke cb1 None)) w))"

definition kickBySessionId :: "sid \<Rightarrow> jsval \<Rightarrow> jsval \<Rightarrow> world \<Rightarrow> world" where
  "kickBySessionId sid reason cb w =
     (let cb1 = (if isFunction reason then reason else cb);
          reason1 = (if isFunction reason then Str ''kick'' else reason)
      in case sessions w sid of
           Some a \<Rightarrow> emit (NextTick (Invoke cb1 None)) (closed a reason1 w)
         | None \<Rightarrow> emit (NextTick (Invoke cb1 None)) w)"

text \<open>getSessionsCount: \<open>size(this.sessions)\<close>, the number of registered sids.\<close>

definition getSessionsCount :: "world \<Rightarrow> nat" where
  "getSessionsCount w = card (dom (sessions w))"

section \<open>Objects at run time\<close>

text \<open>
  clone, dclone, \<open>delete this[key]\<close> and export work on property names, so they are modelled
  on the objects as they are at run time: tables of own properties in a store, reached
  through references. \<open>nextobj\<close> is the address the next new object takes. The fields an
  EventEmitter adds to an object are left out.
\<close>

record mem =
  objs :: "addr \<Rightarrow> object"
  nextobj :: addr

definition alloc :: "object \<Rightarrow> mem \<Rightarrow> addr \<times> mem" where
  "alloc obj m = (nextobj m, m\<lparr>objs := (objs m)(nextobj m := obj), nextobj := Suc (nextobj m)\<rparr>)"

text \<open>\<open>obj[k] = v\<close> and \<open>delete obj[k]\<close> on the object at address \<open>a\<close>.\<close>

definition setprop :: "addr \<Rightarrow> string \<Rightarrow> jsval \<Rightarrow> mem \<Rightarrow> mem" where
  "setprop a k v m = m\<lparr>objs := (objs m)(a := put k v (objs m a))\<rparr>"

definition delprop :: "addr \<Rightarrow> string \<Rightarrow> mem \<Rightarrow> mem" where
  "delprop a k m = m\<lparr>objs := (objs m)(a := del k (objs m a))\<rparr>"

text \<open>
  \<open>v[k]\<close> on any value: a TypeError on \<open>undefined\<close> and \<open>null\<close>, the property of an object,
  and nothing on a primitive or a function (the characters and the length of a string are
  not modelled).
\<close>

fun readprop :: "mem \<Rightarrow> jsval \<Rightarrow> string \<Rightarrow> exn + jsval" where
  "readprop m (Ref a) k = Inr (getprop (objs m a) k)"
| "readprop m Undefined k = Inl TypeError"
| "readprop m Null k = Inl TypeError"
| "readprop m v k = Inr Undefined"

definition FRONTEND_SESSION_FIELDS :: "string list" where
  "FRONTEND_SESSION_FIELDS = [''id'', ''frontendId'', ''uid'', ''__sessionService__'']"

definition EXPORTED_SESSION_FIELDS :: "string list" where
  "EXPORTED_SESSION_FIELDS = [''id'', ''frontendId'', ''uid'', ''settings'']"

text \<open>clone(src, dest, includes): \<open>dest[f] = src[f]\<close> for each listed name.\<close>

definition clone :: "addr \<Rightarrow> addr \<Rightarrow> string list \<Rightarrow> mem \<Rightarrow> mem" where
  "clone src dest includes m =
     fold (\<lambda>f m'. setprop dest f (getprop (objs m' src) f) m') includes m"

text \<open>
  dclone(src) on a value: the new object \<open>res\<close> and the \<open>for ... in\<close> loop, which runs over
  the properties of an object and not at all over \<open>undefined\<close>, \<open>null\<close>, a number or a boolean.
\<close>

definition dclone_val :: "jsval \<Rightarrow> mem \<Rightarrow> addr \<times> mem" where
  "dclone_val src m = alloc (case src of Ref a \<Rightarrow> dclone (objs m a) | _ \<Rightarrow> []) m"

text \<open>
  The Session constructor on objects: \<open>this\<close> with its seven fields in the order of the
  assignments, \<open>settings\<close> a new empty object.
\<close>

definition Session_new :: "sid \<Rightarrow> string \<Rightarrow> jsval \<Rightarrow> jsval \<Rightarrow> mem \<Rightarrow> addr \<times> mem" where
  "Session_new sid fid sock service m =
     (let (this, m1) = alloc [] m;
          m2 = setprop this ''uid'' Null
                 (setprop this ''frontendId'' (Str fid) (setprop this ''id'' (Num sid) m1));
          (s, m3) = alloc [] m2;
          m4 = setprop this ''settings'' (Ref s) m3
      in (this, setprop this ''__state__'' (Num 0)
                  (setprop this ''__sessionService__'' service
                     (setprop this ''__socket__'' sock m4))))"

text \<open>Session.remove and Session.get on the Session object at address \<open>this\<close>.\<close>

definition Session_remove :: "addr \<Rightarrow> string \<Rightarrow> mem \<Rightarrow> mem" where
  "Session_remove this key m = delprop this key m"

definition Session_get :: "addr \<Rightarrow> string \<Rightarrow> mem \<Rightarrow> exn + jsval" where
  "Session_get this key m = readprop m (getprop (objs m this) ''settings'') key"

text \<open>The FrontendSession constructor and FrontendSession.export.\<close>

definition FrontendSession :: "addr \<Rightarrow> mem \<Rightarrow> addr \<times> mem" where
  "FrontendSession session m =
     (let (this, m1) = alloc [] m;
          m2 = clone session this FRONTEND_SESSION_FIELDS m1;
          (s, m3) = dclone_val (getprop (objs m2 session) ''settings'') m2;
          m4 = setprop this ''settings'' (Ref s) m3
      in (this, setprop this ''__session__'' (Ref session) m4))"

definition export :: "addr \<Rightarrow> mem \<Rightarrow> addr \<times> mem" where
  "export this m = (let (res, m1) = alloc [] m in (res, clone this res EXPORTED_SESSION_FIELDS m1))"

text \<open>
  A store for the examples: a socket and a service at addresses 0 and 1, a Session with
  sid 1 on frontend \<open>f1\<close> (object 2, its settings object 3), \<open>score\<close> set to 10, the uid bound
  to 7, and the FrontendSession made from it (object 4, its settings copy 5).
\<close>

definition session_mem :: mem where
  "session_mem =
     setprop 2 ''uid'' (Num 7) (setprop 3 ''score'' (Num 10)
       (snd (Session_new 1 ''f1'' (Ref 0) (Ref 1) \<lparr>objs = (\<lambda>a. []), nextobj = 2\<rparr>)))"

definition frontend_mem :: mem where
  "frontend_mem = snd (FrontendSession 2 session_mem)"

text \<open>
  The same with a nested value: object 4 is \<open>{level: 1}\<close>, stored in the settings of the
  Session under \<open>profile\<close> before the FrontendSession (object 5, its settings copy 6) is made.
\<close>

definition nested_mem :: mem where
  "nested_mem =
     snd (FrontendSession 2
       (setprop 3 ''profile'' (Ref 4) (snd (alloc [(''level'', Num 1)] session_mem))))"

section \<open>Sequences of calls\<close>

text \<open>
  The public operations as data, so that a registry can be followed through any sequence
  of calls. \<open>Closed a reason\<close> is \<open>closed(reason)\<close> on the Session object created
  \<open>a\<close>-th (registered or not); where no such object exists yet there is nothing to call.
\<close>

datatype op =
    Create sid string addr
  | Bind sid uid jsval
  | Unbind sid uid jsval
  | Remove sid
  | Import sid setkey jsval jsval
  | ImportAll sid object jsval
  | Kick uid jsval jsval
  | KickBySessionId sid jsval jsval
  | Closed addr jsval

fun exec :: "op \<Rightarrow> world \<Rightarrow> world" where
  "exec (Create sid fid sock) w = snd (create sid fid sock w)"
| "exec (Bind sid u cb) w = snd (bind sid u cb w)"
| "exec (Unbind sid u cb) w = unbind sid u cb w"
| "exec (Remove sid) w = remove sid w"
| "exec (Import sid key v cb) w = import_s sid key v cb w"
| "exec (ImportAll sid sets cb) w = importAll sid sets cb w"
| "exec (Kick u reason cb) w = snd (kick u reason cb w)"
| "exec (KickBySessionId sid reason cb) w = kickBySessionId sid reason cb w"
| "exec (Closed a reason) w = (if a < fresh w then closed a reason w else w)"

fun run :: "op list \<Rightarrow> world \<Rightarrow> world" where
  "run [] w = w"
| "run (x # xs) w = run xs (exec x w)"

text \<open>
  The discipline the transport layer is expected to keep: a sid is created only while it is
  not registered, and the uid given to bind is not the number \<open>0\<close>.
\<close>

fun admissible :: "op \<Rightarrow> world \<Rightarrow> bool" where
  "admissible (Create sid fid sock) w = (sessions w sid = None)"
| "admissible (Bind sid u cb) w = (u \<noteq> 0)"
| "admissible x w = True"

fun disciplined :: "op list \<Rightarrow> world \<Rightarrow> bool" where
  "disciplined [] w = True"
| "disciplined (x # xs) w = (admissible x w \<and> disciplined xs (exec x w))"

section \<open>Invariants\<close>

text \<open>
  The invariant of the data model, as the specification words it: a registered Session
  with a uid is exactly once in the uid index, in the bucket of that uid; and every Session
  in a bucket is registered and carries the bucket's key as its uid.
\<close>

definition uid_index_ok :: "world \<Rightarrow> bool" where
  "uid_index_ok w \<longleftrightarrow>
     (\<forall>sid a u. sessions w sid = Some a \<and> uid (heap w a) = Some u \<longrightarrow>
        (\<exists>b. uidMap w u = Some b \<and> count_list b a = 1) \<and>
        (\<forall>u' b'. uidMap w u' = Some b' \<and> a \<in> set b' \<longrightarrow> u' = u)) \<and>
     (\<forall>u b a. uidMap w u = Some b \<and> a \<in> set b \<longrightarrow>
        (\<exists>sid. sessions w sid = Some a) \<and> uid (heap w a) = Some u)"

text \<open>
  What the operations keep of the two tables: finitely many sids are registered; a
  registered Session is an allocated object registered under its own id; a registered
  Session with a uid is in the bucket of that uid; a bucket is never empty, holds no
  Session twice, and holds only registered Sessions bound to its key.
\<close>

definition index_inv :: "world \<Rightarrow> bool" where
  "index_inv w \<longleftrightarrow>
     finite (dom (sessions w)) \<and>
     (\<forall>sid a. sessions w sid = Some a \<longrightarrow> a < fresh w \<and> id' (heap w a) = sid) \<and>
     (\<forall>sid a u. sessions w sid = Some a \<longrightarrow> uid (heap w a) = Some u \<longrightarrow>
        (\<exists>b. uidMap w u = Some b \<and> a \<in> set b)) \<and>
     (\<forall>u b. uidMap w u = Some b \<longrightarrow>
        b \<noteq> [] \<and> distinct b \<and>
        (\<forall>a \<in> set b. sessions w (id' (heap w a)) = Some a \<and> uid (heap w a) = Some u))"

text \<open>No registered Session is closed.\<close>

definition registered_open :: "world \<Rightarrow> bool" where
  "registered_open w \<longleftrightarrow> (\<forall>sid a. sessions w sid = Some a \<longrightarrow> state (heap w a) = ST_INITED)"

text \<open>The invariant of the registry: the two tables agree and what is registered is open.\<close>

definition registry_inv :: "world \<Rightarrow> bool" where
  "registry_inv w \<longleftrightarrow> index_inv w \<and> registered_open w"

text \<open>No registered Session is bound to the uid \<open>0\<close>.\<close>

definition no_zero_uid :: "world \<Rightarrow> bool" where
  "no_zero_uid w \<longleftrightarrow> (\<forall>sid a. sessions w sid = Some a \<longrightarrow> uid (heap w a) \<noteq> Some 0)"

text \<open>
  Taking a registered Session \<open>a\<close> out of its bucket, with either its uid cleared (unbind) or
  its sid unregistered (remove).
\<close>

definition drop_from :: "uid \<Rightarrow> addr \<Rightarrow> (uid \<rightharpoonup> addr list) \<Rightarrow> (uid \<rightharpoonup> addr list)" where
  "drop_from u a m = (case m u of None \<Rightarrow> m
     | Some b \<Rightarrow> if remove1 a b = [] then m(u := None) else m(u \<mapsto> remove1 a b))"

text \<open>An event that runs a callback inside the call.\<close>

fun is_Now :: "event \<Rightarrow> bool" where
  "is_Now (Now cb e) = True"
| "is_Now ev = False"

text \<open>The three events of one closure.\<close>

definition closing_events :: "(addr \<Rightarrow> session) \<Rightarrow> jsval \<Rightarrow> addr \<Rightarrow> event list" where
  "closing_events h reason a =
     [EmitClosed a (toFrontendSession a (h a)) reason, SocketClosing (socket (h a)) reason,
      NextTick (Disconnect (socket (h a)))]"

section \<open>Frame and invariant lemmas\<close>

lemma emit_simps [simp]:
  "heap (emit e w) = heap w" "sessions (emit e w) = sessions w" "uidMap (emit e w) = uidMap w"
  "fresh (emit e w) = fresh w" "singleSession (emit e w) = singleSession w"
  "trace (emit e w) = trace w @ [e]"
  by (simp_all add: emit_def)

lemma index_inv_emit [simp]: "index_inv (emit e w) = index_inv w"
  by (simp add: index_inv_def)

lemma registered_open_emit [simp]: "registered_open (emit e w) = registered_open w"
  by (simp add: registered_open_def)

lemma no_zero_uid_emit [simp]: "no_zero_uid (emit e w) = no_zero_uid w"
  by (simp add: no_zero_uid_def)

lemma index_invD:
  assumes "index_inv w"
  shows "finite (dom (sessions w))"
    and "sessions w sid = Some a \<Longrightarrow> a < fresh w"
    and "sessions w sid = Some a \<Longrightarrow> id' (heap w a) = sid"
    and "sessions w sid = Some a \<Longrightarrow> uid (heap w a) = Some u \<Longrightarrow> \<exists>b. uidMap w u = Some b \<and> a \<in> set b"
    and "uidMap w u = Some b \<Longrightarrow> b \<noteq> []"
    and "uidMap w u = Some b \<Longrightarrow> distinct b"
    and "uidMap w u = Some b \<Longrightarrow> x \<in> set b \<Longrightarrow> sessions w (id' (heap w x)) = Some x"
    and "uidMap w u = Some b \<Longrightarrow> x \<in> set b \<Longrightarrow> uid (heap w x) = Some u"
  using assms unfolding index_inv_def by blast+

lemma index_invI:
  assumes "finite (dom (sessions w))"
    and "\<And>sid a. sessions w sid = Some a \<Longrightarrow> a < fresh w \<and> id' (heap w a) = sid"
    and "\<And>sid a u. sessions w sid = Some a \<Longrightarrow> uid (heap w a) = Some u \<Longrightarrow> \<exists>b. uidMap w u = Some b \<and> a \<in> set b"
    and "\<And>u b. uidMap w u = Some b \<Longrightarrow> b \<noteq> [] \<and> distinct b"
    and "\<And>u b x. uidMap w u = Some b \<Longrightarrow> x \<in> set b \<Longrightarrow> sessions w (id' (heap w x)) = Some x \<and> uid (heap w x) = Some u"
  shows "index_inv w"
  using assms unfolding index_inv_def by blast

lemma index_inv_create:
  assumes inv: "index_inv w" and new: "sessions w sid = None"
  shows "index_inv (snd (create sid fid sock w))"
proof (rule index_invI)
  let ?w = "snd (create sid fid sock w)"
  have h: "heap ?w = (heap w)(fresh w := Session sid fid sock)"
    and s: "sessions ?w = (sessions w)(sid \<mapsto> fresh w)"
    and u: "uidMap ?w = uidMap w" and f: "fresh ?w = Suc (fresh w)"
    by (simp_all add: create_def Let_def Session_def)
  show "finite (dom (sessions ?w))" using index_invD(1)[OF inv] by (simp add: s)
  show "a < fresh ?w \<and> id' (heap ?w a) = sid'" if "sessions ?w sid' = Some a" for sid' a
    using that index_invD(2,3)[OF inv, of sid' a]
    by (auto simp: h s f Session_def split: if_splits)
  show "\<exists>b. uidMap ?w u' = Some b \<and> a \<in> set b"
    if "sessions ?w sid' = Some a" "uid (heap ?w a) = Some u'" for sid' a u'
    using that index_invD(2)[OF inv, of sid' a] index_invD(4)[OF inv, of sid' a u']
    by (auto simp: h s u Session_def split: if_splits)
  show "b \<noteq> [] \<and> distinct b" if "uidMap ?w u' = Some b" for u' b
    using that index_invD(5,6)[OF inv, of u' b] by (simp add: u)
  show "sessions ?w (id' (heap ?w x)) = Some x \<and> uid (heap ?w x) = Some u'"
    if "uidMap ?w u' = Some b" "x \<in> set b" for u' b x
  proof -
    from that have b: "uidMap w u' = Some b" by (simp add: u)
    have reg: "sessions w (id' (heap w x)) = Some x" and ux: "uid (heap w x) = Some u'"
      using index_invD(7,8)[OF inv b that(2)] by auto
    have "x < fresh w" using index_invD(2)[OF inv reg] .
    moreover have "id' (heap w x) \<noteq> sid" using reg new by auto
    ultimately show ?thesis using reg ux by (simp add: h s)
  qed
qed


lemma has_id_iff: "has_id h i b \<longleftrightarrow> (\<exists>x \<in> set b. id' (h x) = i)"
  by (induction b) auto

lemma index_inv_bound:
  assumes inv: "index_inv w" and reg: "sessions w sid = Some a"
    and free: "uid (heap w a) = None"
    and bk: "bucket = (case uidMap w u of None \<Rightarrow> [a] | Some b \<Rightarrow> b @ [a])"
  shows "index_inv (Session_bind a u (w\<lparr>uidMap := (uidMap w)(u \<mapsto> bucket)\<rparr>))"
proof (rule index_invI)
  let ?w = "Session_bind a u (w\<lparr>uidMap := (uidMap w)(u \<mapsto> bucket)\<rparr>)"
  have h: "heap ?w = (heap w)(a := (heap w a)\<lparr>uid := Some u\<rparr>)"
    and s: "sessions ?w = sessions w"
    and m: "uidMap ?w = (uidMap w)(u \<mapsto> bucket)" and f: "fresh ?w = fresh w"
    by (simp_all add: Session_bind_def)
  have notin: "a \<notin> set b" if "uidMap w u' = Some b" for u' b
    using index_invD(8)[OF inv that, of a] free by auto
  have ida: "id' (heap ?w x) = id' (heap w x)" for x by (simp add: h)
  have ain: "a \<in> set bucket" by (simp add: bk split: option.splits)
  have old: "x \<in> set bucket" if "uidMap w u = Some b" "x \<in> set b" for b x
    using that by (simp add: bk)
  have cases: "x = a \<or> (\<exists>b0. uidMap w u = Some b0 \<and> x \<in> set b0)" if "x \<in> set bucket" for x
    using that by (auto simp: bk split: option.splits)
  have good: "bucket \<noteq> [] \<and> distinct bucket"
    using notin[of u] index_invD(6)[OF inv, of u] by (auto simp: bk split: option.splits)
  show "finite (dom (sessions ?w))" using index_invD(1)[OF inv] by (simp add: s)
  show "x < fresh ?w \<and> id' (heap ?w x) = sid'" if "sessions ?w sid' = Some x" for sid' x
    using that index_invD(2,3)[OF inv, of sid' x] by (simp add: s f ida)
  show "\<exists>b. uidMap ?w u' = Some b \<and> x \<in> set b"
    if "sessions ?w sid' = Some x" "uid (heap ?w x) = Some u'" for sid' x u'
  proof (cases "x = a")
    case True
    with that have "u' = u" by (simp add: h)
    then show ?thesis using True ain by (simp add: m)
  next
    case False
    with that have "sessions w sid' = Some x" "uid (heap w x) = Some u'" by (simp_all add: h s)
    from index_invD(4)[OF inv this] obtain b where "uidMap w u' = Some b" "x \<in> set b" by blast
    then show ?thesis using old by (cases "u' = u") (auto simp: m)
  qed
  show "b \<noteq> [] \<and> distinct b" if "uidMap ?w u' = Some b" for u' b
  proof (cases "u' = u")
    case True
    with that have "b = bucket" by (simp add: m)
    then show ?thesis using good by simp
  next
    case False
    with that show ?thesis using index_invD(5,6)[OF inv, of u' b] by (simp add: m)
  qed
  show "sessions ?w (id' (heap ?w x)) = Some x \<and> uid (heap ?w x) = Some u'"
    if "uidMap ?w u' = Some b" "x \<in> set b" for u' b x
  proof (cases "x = a")
    case True
    have "u' = u"
    proof (rule ccontr)
      assume "u' \<noteq> u"
      with that have "uidMap w u' = Some b" by (simp add: m)
      from notin[OF this] that True show False by simp
    qed
    then show ?thesis using True reg index_invD(3)[OF inv reg] by (simp add: h s)
  next
    case False
    have "\<exists>b0. uidMap w u' = Some b0 \<and> x \<in> set b0"
      using that False cases[of x] by (cases "u' = u") (auto simp: m)
    then obtain b0 where "uidMap w u' = Some b0" "x \<in> set b0" by blast
    from index_invD(7,8)[OF inv this] False show ?thesis by (simp add: h s)
  qed
qed

lemma uidMap_same: "uidMap w u = Some b \<Longrightarrow> w\<lparr>uidMap := (uidMap w)(u \<mapsto> b)\<rparr> = w"
  by (simp add: fun_upd_idem)

lemma truthy_uid_iff: "truthy_uid v \<longleftrightarrow> v \<noteq> None \<and> v \<noteq> Some 0"
  by (cases v) auto

lemma index_inv_bind:
  assumes inv: "index_inv w" and nz: "no_zero_uid w"
  shows "index_inv (snd (bind sid u cb w))"
proof (cases "sessions w sid")
  case None
  then show ?thesis using inv by (simp add: bind_def)
next
  case (Some a)
  have nz': "uid (heap w a) \<noteq> Some 0" using nz Some by (auto simp: no_zero_uid_def)
  show ?thesis
  proof (cases "truthy_uid (uid (heap w a))")
    case True
    then show ?thesis using inv Some by (simp add: bind_def Let_def)
  next
    case False
    then have free: "uid (heap w a) = None" using nz' by (simp add: truthy_uid_iff)
    show ?thesis
    proof (cases "uidMap w u")
      case None
      have "index_inv (Session_bind a u (w\<lparr>uidMap := (uidMap w)(u \<mapsto> [a])\<rparr>))"
        by (rule index_inv_bound[OF inv Some free]) (simp add: None)
      then show ?thesis using Some False None by (simp add: bind_def Let_def)
    next
      case (Some b)
      have "index_inv (Session_bind a u (w\<lparr>uidMap := (uidMap w)(u \<mapsto> b @ [a])\<rparr>))"
        by (rule index_inv_bound[OF inv \<open>sessions w sid = Some a\<close> free]) (simp add: Some)
      then show ?thesis using \<open>sessions w sid = Some a\<close> False Some inv
        by (simp add: bind_def Let_def uidMap_same)
    qed
  qed
qed

lemma splice_id_hit:
  "a \<in> set b \<Longrightarrow> (\<And>x. x \<in> set b \<Longrightarrow> id' (h x) = id' (h a) \<Longrightarrow> x = a) \<Longrightarrow>
     splice_id h (id' (h a)) b = Some (remove1 a b)"
proof (induction b)
  case Nil
  then show ?case by simp
next
  case (Cons x b)
  show ?case
  proof (cases "id' (h x) = id' (h a)")
    case True
    then have "x = a" using Cons.prems(2)[of x] by simp
    then show ?thesis by simp
  next
    case False
    then have xa: "x \<noteq> a" by auto
    with Cons.prems(1) have "a \<in> set b" by simp
    then have "splice_id h (id' (h a)) b = Some (remove1 a b)"
      using Cons.prems(2) by (intro Cons.IH) simp_all
    then show ?thesis using False xa by simp
  qed
qed

lemma splice_id_miss: "(\<And>x. x \<in> set b \<Longrightarrow> id' (h x) \<noteq> i) \<Longrightarrow> splice_id h i b = None"
  by (induction b) simp_all

text \<open>Under the invariant the loop finds the registered Session itself.\<close>

lemma splice_id_bucket:
  assumes inv: "index_inv w" and reg: "sessions w sid = Some a"
    and bk: "uidMap w u = Some b"
  shows "splice_id (heap w) sid b = (if a \<in> set b then Some (remove1 a b) else None)"
proof (cases "a \<in> set b")
  case True
  have ida: "id' (heap w a) = sid" using index_invD(3)[OF inv reg] .
  have "x = a" if "x \<in> set b" "id' (heap w x) = id' (heap w a)" for x
    using index_invD(7)[OF inv bk that(1)] that(2) reg ida by simp
  then have "splice_id (heap w) (id' (heap w a)) b = Some (remove1 a b)"
    using True by (intro splice_id_hit) simp_all
  then show ?thesis using True ida by simp
next
  case False
  have "id' (heap w x) \<noteq> sid" if "x \<in> set b" for x
    using index_invD(7)[OF inv bk that] reg False that by auto
  then show ?thesis using False by (simp add: splice_id_miss)
qed

lemma drop_from_other: "u' \<noteq> u \<Longrightarrow> drop_from u a m u' = m u'"
  by (simp add: drop_from_def split: option.splits)

lemma drop_from_same:
  "m u = Some b \<Longrightarrow> drop_from u a m u = (if remove1 a b = [] then None else Some (remove1 a b))"
  by (simp add: drop_from_def)

lemma index_inv_unbound:
  assumes inv: "index_inv w" and reg: "sessions w sid = Some a"
    and bound: "uid (heap w a) = Some u"
    and h: "heap w' = (heap w)(a := (heap w a)\<lparr>uid := None\<rparr>)"
    and s: "sessions w' = sessions w" and f: "fresh w' = fresh w"
    and m: "uidMap w' = drop_from u a (uidMap w)"
  shows "index_inv w'"
proof (rule index_invI)
  from index_invD(4)[OF inv reg bound] obtain b where b: "uidMap w u = Some b" "a \<in> set b"
    by blast
  have db: "distinct b" using index_invD(6)[OF inv b(1)] .
  have only: "u' = u" if "uidMap w u' = Some b'" "a \<in> set b'" for u' b'
    using index_invD(8)[OF inv that] bound by simp
  show "finite (dom (sessions w'))" using index_invD(1)[OF inv] by (simp add: s)
  show "x < fresh w' \<and> id' (heap w' x) = sid'" if "sessions w' sid' = Some x" for sid' x
    using that index_invD(2,3)[OF inv, of sid' x] by (auto simp: s f h)
  show "\<exists>b. uidMap w' u' = Some b \<and> x \<in> set b"
    if "sessions w' sid' = Some x" "uid (heap w' x) = Some u'" for sid' x u'
  proof -
    from that have xa: "x \<noteq> a" by (auto simp: h)
    with that have "sessions w sid' = Some x" "uid (heap w x) = Some u'" by (simp_all add: h s)
    from index_invD(4)[OF inv this] obtain b' where b': "uidMap w u' = Some b'" "x \<in> set b'"
      by blast
    show ?thesis
    proof (cases "u' = u")
      case True
      with b b' have "x \<in> set (remove1 a b)" using xa by simp
      then show ?thesis using True b by (auto simp: m drop_from_same)
    next
      case False
      then show ?thesis using b' by (simp add: m drop_from_other)
    qed
  qed
  show "b' \<noteq> [] \<and> distinct b'" if "uidMap w' u' = Some b'" for u' b'
  proof (cases "u' = u")
    case True
    with that b have "b' = remove1 a b \<and> b' \<noteq> []"
      by (auto simp: m drop_from_same split: if_splits)
    then show ?thesis using db by auto
  next
    case False
    with that show ?thesis using index_invD(5,6)[OF inv, of u' b'] by (simp add: m drop_from_other)
  qed
  show "sessions w' (id' (heap w' x)) = Some x \<and> uid (heap w' x) = Some u'"
    if "uidMap w' u' = Some b'" "x \<in> set b'" for u' b' x
  proof -
    have "\<exists>b0. uidMap w u' = Some b0 \<and> x \<in> set b0 \<and> x \<noteq> a"
    proof (cases "u' = u")
      case True
      with that b have "b' = remove1 a b" by (auto simp: m drop_from_same split: if_splits)
      with that db have "x \<in> set b \<and> x \<noteq> a" by auto
      then show ?thesis using True b by simp
    next
      case False
      with that have "uidMap w u' = Some b'" by (simp add: m drop_from_other)
      then show ?thesis using that only False by auto
    qed
    then obtain b0 where "uidMap w u' = Some b0" "x \<in> set b0" "x \<noteq> a" by blast
    with index_invD(7,8)[OF inv this(1,2)] show ?thesis by (simp add: h s)
  qed
qed

lemma index_inv_unbind:
  assumes inv: "index_inv w"
  shows "index_inv (unbind sid u cb w)"
proof (cases "sessions w sid")
  case None
  then show ?thesis using inv by (simp add: unbind_def)
next
  case (Some a)
  show ?thesis
  proof (cases "\<not> truthy_uid (uid (heap w a)) \<or> uid (heap w a) \<noteq> Some u")
    case True
    then show ?thesis using inv Some by (simp add: unbind_def Let_def)
  next
    case False
    then have bound: "uid (heap w a) = Some u" by simp
    from index_invD(4)[OF inv Some bound] obtain b where b: "uidMap w u = Some b" "a \<in> set b"
      by blast
    have sp: "splice_id (heap w) sid b = Some (remove1 a b)"
      using splice_id_bucket[OF inv Some b(1)] b(2) by simp
    let ?w1 = "if remove1 a b = [] then w\<lparr>uidMap := (uidMap w)(u := None)\<rparr>
               else w\<lparr>uidMap := (uidMap w)(u \<mapsto> remove1 a b)\<rparr>"
    have "index_inv (Session_unbind a u ?w1)"
      by (rule index_inv_unbound[OF inv Some bound])
         (simp_all add: Session_unbind_def drop_from_def b)
    then show ?thesis using Some False b sp inv by (simp add: unbind_def Let_def)
  qed
qed

lemma index_inv_cong:
  assumes "sessions w' = sessions w" "uidMap w' = uidMap w" "fresh w' = fresh w"
    and "\<And>x. id' (heap w' x) = id' (heap w x)" "\<And>x. uid (heap w' x) = uid (heap w x)"
  shows "index_inv w' = index_inv w"
  by (simp add: index_inv_def assms)

lemma index_inv_removed:
  assumes inv: "index_inv w" and reg: "sessions w sid = Some a"
    and h: "heap w' = heap w"
    and s: "sessions w' = (sessions w)(sid := None)" and f: "fresh w' = fresh w"
    and m: "uidMap w' = (case uid (heap w a) of None \<Rightarrow> uidMap w
                          | Some u \<Rightarrow> drop_from u a (uidMap w))"
  shows "index_inv w'"
proof (rule index_invI)
  have ida: "id' (heap w a) = sid" using index_invD(3)[OF inv reg] .
  have other: "x \<noteq> a \<and> sessions w sid' = Some x" if "sessions w' sid' = Some x" for sid' x
    using that reg ida index_invD(3)[OF inv, of sid' x] by (auto simp: s split: if_splits)
  have still: "sessions w' (id' (heap w x)) = Some x"
    if "sessions w (id' (heap w x)) = Some x" "x \<noteq> a" for x
    using that reg by (auto simp: s)
  have bucket: "\<exists>b. uidMap w u' = Some b \<and> set b' = set b - {a} \<and> distinct b"
    if "uidMap w' u' = Some b'" for u' b'
  proof (cases "uid (heap w a)")
    case None
    with that have b: "uidMap w u' = Some b'" by (simp add: m)
    have "a \<notin> set b'" using index_invD(8)[OF inv b, of a] None by auto
    then show ?thesis using b index_invD(6)[OF inv b] by auto
  next
    case (Some u)
    from index_invD(4)[OF inv reg Some] obtain b where b: "uidMap w u = Some b" "a \<in> set b"
      by blast
    show ?thesis
    proof (cases "u' = u")
      case True
      with that Some b have "b' = remove1 a b" by (auto simp: m drop_from_same split: if_splits)
      then show ?thesis using True b index_invD(6)[OF inv b(1)] by auto
    next
      case False
      with that Some have b': "uidMap w u' = Some b'" by (simp add: m drop_from_other)
      have "a \<notin> set b'" using index_invD(8)[OF inv b', of a] Some False by auto
      then show ?thesis using b' index_invD(6)[OF inv b'] by auto
    qed
  qed
  show "finite (dom (sessions w'))" using index_invD(1)[OF inv] by (simp add: s)
  show "x < fresh w' \<and> id' (heap w' x) = sid'" if "sessions w' sid' = Some x" for sid' x
    using other[OF that] index_invD(2,3)[OF inv, of sid' x] by (simp add: f h)
  show "\<exists>b. uidMap w' u' = Some b \<and> x \<in> set b"
    if "sessions w' sid' = Some x" "uid (heap w' x) = Some u'" for sid' x u'
  proof -
    from other[OF that(1)] have xa: "x \<noteq> a" and r: "sessions w sid' = Some x" by auto
    from that(2) have ux: "uid (heap w x) = Some u'" by (simp add: h)
    from index_invD(4)[OF inv r ux] obtain b where b: "uidMap w u' = Some b" "x \<in> set b"
      by blast
    show ?thesis
    proof (cases "uid (heap w a) = Some u'")
      case True
      have "x \<in> set (remove1 a b)" using b xa by simp
      then show ?thesis using True b by (auto simp: m drop_from_same)
    next
      case False
      then show ?thesis using b by (cases "uid (heap w a)") (auto simp: m drop_from_other)
    qed
  qed
  show "b' \<noteq> [] \<and> distinct b'" if "uidMap w' u' = Some b'" for u' b'
  proof (cases "uid (heap w a) = Some u'")
    case True
    from index_invD(4)[OF inv reg True] obtain b where b: "uidMap w u' = Some b" "a \<in> set b"
      by blast
    with that True have "b' = remove1 a b \<and> b' \<noteq> []"
      by (auto simp: m drop_from_same split: if_splits)
    then show ?thesis using index_invD(6)[OF inv b(1)] by auto
  next
    case False
    then have "uidMap w u' = Some b'"
      using that by (cases "uid (heap w a)") (auto simp: m drop_from_other)
    then show ?thesis using index_invD(5,6)[OF inv, of u' b'] by simp
  qed
  show "sessions w' (id' (heap w' x)) = Some x \<and> uid (heap w' x) = Some u'"
    if "uidMap w' u' = Some b'" "x \<in> set b'" for u' b' x
  proof -
    from bucket[OF that(1)] obtain b where b: "uidMap w u' = Some b" "set b' = set b - {a}"
      by blast
    with that(2) have xb: "x \<in> set b" and xa: "x \<noteq> a" by auto
    from index_invD(7,8)[OF inv b(1) xb] still[of x] xa show ?thesis by (simp add: h)
  qed
qed

lemma remove_frame [simp]:
  "heap (remove sid w) = heap w" "fresh (remove sid w) = fresh w"
  "singleSession (remove sid w) = singleSession w" "trace (remove sid w) = trace w"
  by (simp_all add: remove_def Let_def split: option.splits)

lemma remove_unregistered: "sessions w sid = None \<Longrightarrow> remove sid w = w"
  by (simp add: remove_def)

lemma remove_sessions:
  "sessions w sid = Some a \<Longrightarrow> id' (heap w a) = sid \<Longrightarrow>
     sessions (remove sid w) = (sessions w)(sid := None)"
  by (simp add: remove_def Let_def split: option.splits)

lemma remove_uidMap:
  assumes inv: "index_inv w" and reg: "sessions w sid = Some a"
  shows "uidMap (remove sid w) =
     (case uid (heap w a) of None \<Rightarrow> uidMap w | Some u \<Rightarrow> drop_from u a (uidMap w))"
proof (cases "uid (heap w a)")
  case None
  then show ?thesis using reg by (simp add: remove_def Let_def)
next
  case (Some u)
  from index_invD(4)[OF inv reg Some] obtain b where b: "uidMap w u = Some b" "a \<in> set b"
    by blast
  have sp: "splice_id (heap w) sid b = Some (remove1 a b)"
    using splice_id_bucket[OF inv reg b(1)] b(2) by simp
  show ?thesis using reg Some b sp by (simp add: remove_def Let_def drop_from_def)
qed

lemma index_inv_remove:
  assumes inv: "index_inv w"
  shows "index_inv (remove sid w)"
proof (cases "sessions w sid")
  case None
  then show ?thesis using inv by (simp add: remove_unregistered)
next
  case (Some a)
  show ?thesis
    by (rule index_inv_removed[OF inv Some])
       (simp_all add: remove_sessions[OF Some index_invD(3)[OF inv Some]] remove_uidMap[OF inv Some])
qed

lemma remove_sessions_le: "sessions (remove sid w) s = Some x \<Longrightarrow> sessions w s = Some x"
  by (auto simp: remove_def Let_def split: option.splits if_splits)

lemma bind_frame [simp]:
  "sessions (snd (bind sid u cb w)) = sessions w" "fresh (snd (bind sid u cb w)) = fresh w"
  "singleSession (snd (bind sid u cb w)) = singleSession w"
  "id' (heap (snd (bind sid u cb w)) x) = id' (heap w x)"
  "state (heap (snd (bind sid u cb w)) x) = state (heap w x)"
  "settings (heap (snd (bind sid u cb w)) x) = settings (heap w x)"
  by (simp_all add: bind_def Let_def Session_bind_def split: option.splits)

lemma bind_uid:
  "uid (heap (snd (bind sid u cb w)) x) = uid (heap w x) \<or>
   uid (heap (snd (bind sid u cb w)) x) = Some u"
  by (simp add: bind_def Let_def Session_bind_def split: option.splits)

lemma unbind_frame [simp]:
  "sessions (unbind sid u cb w) = sessions w" "fresh (unbind sid u cb w) = fresh w"
  "singleSession (unbind sid u cb w) = singleSession w"
  "id' (heap (unbind sid u cb w) x) = id' (heap w x)"
  "state (heap (unbind sid u cb w) x) = state (heap w x)"
  "settings (heap (unbind sid u cb w) x) = settings (heap w x)"
  by (simp_all add: unbind_def Let_def Session_unbind_def split: option.splits)

lemma unbind_uid:
  "uid (heap (unbind sid u cb w) x) = uid (heap w x) \<or> uid (heap (unbind sid u cb w) x) = None"
  by (simp add: unbind_def Let_def Session_unbind_def split: option.splits)

lemma set_s_frame [simp]:
  "id' (set_s k v s) = id' s" "uid (set_s k v s) = uid s" "state (set_s k v s) = state s"
  "socket (set_s k v s) = socket s" "frontendId (set_s k v s) = frontendId s"
  by (cases k; simp)+

lemma fold_set_s_frame [simp]:
  "id' (fold (\<lambda>f s. s\<lparr>settings := G f s\<rparr>) ks s) = id' s"
  "uid (fold (\<lambda>f s. s\<lparr>settings := G f s\<rparr>) ks s) = uid s"
  "state (fold (\<lambda>f s. s\<lparr>settings := G f s\<rparr>) ks s) = state s"
  by (induction ks arbitrary: s; simp)+

lemma invokeCallback_frame [simp]:
  "heap (invokeCallback cb e w) = heap w" "sessions (invokeCallback cb e w) = sessions w"
  "uidMap (invokeCallback cb e w) = uidMap w" "fresh (invokeCallback cb e w) = fresh w"
  "singleSession (invokeCallback cb e w) = singleSession w"
  by (simp_all add: invokeCallback_def)

lemma import_s_frame [simp]:
  "sessions (import_s sid k v cb w) = sessions w" "uidMap (import_s sid k v cb w) = uidMap w"
  "fresh (import_s sid k v cb w) = fresh w"
  "singleSession (import_s sid k v cb w) = singleSession w"
  "id' (heap (import_s sid k v cb w) x) = id' (heap w x)"
  "uid (heap (import_s sid k v cb w) x) = uid (heap w x)"
  "state (heap (import_s sid k v cb w) x) = state (heap w x)"
  by (simp_all add: import_s_def split: option.splits)

lemma importAll_frame [simp]:
  "sessions (importAll sid sets cb w) = sessions w" "uidMap (importAll sid sets cb w) = uidMap w"
  "fresh (importAll sid sets cb w) = fresh w"
  "singleSession (importAll sid sets cb w) = singleSession w"
  "id' (heap (importAll sid sets cb w) x) = id' (heap w x)"
  "uid (heap (importAll sid sets cb w) x) = uid (heap w x)"
  "state (heap (importAll sid sets cb w) x) = state (heap w x)"
  by (simp_all add: importAll_def split: option.splits)

lemma closed_frame [simp]:
  "fresh (closed a r w) = fresh w" "singleSession (closed a r w) = singleSession w"
  "id' (heap (closed a r w) x) = id' (heap w x)"
  "uid (heap (closed a r w) x) = uid (heap w x)"
  "settings (heap (closed a r w) x) = settings (heap w x)"
  by (simp_all add: closed_def Let_def)

lemma closed_CLOSED: "state (heap w a) = ST_CLOSED \<Longrightarrow> closed a r w = w"
  by (simp add: closed_def)

lemma closed_state: "state (heap (closed a r w) a) = ST_CLOSED"
  by (simp add: closed_def Let_def)

lemma closed_state_other: "x \<noteq> a \<Longrightarrow> state (heap (closed a r w) x) = state (heap w x)"
  by (simp add: closed_def Let_def)

lemma closed_sessions:
  "sessions (closed a r w) =
     (if state (heap w a) = ST_CLOSED then sessions w
      else sessions (remove (id' (heap w a)) (w\<lparr>heap := (heap w)(a := (heap w a)\<lparr>state := ST_CLOSED\<rparr>)\<rparr>)))"
  by (simp add: closed_def Let_def)

lemma closed_uidMap:
  "uidMap (closed a r w) =
     (if state (heap w a) = ST_CLOSED then uidMap w
      else uidMap (remove (id' (heap w a)) (w\<lparr>heap := (heap w)(a := (heap w a)\<lparr>state := ST_CLOSED\<rparr>)\<rparr>)))"
  by (simp add: closed_def Let_def)

lemma closed_sessions_le: "sessions (closed a r w) s = Some x \<Longrightarrow> sessions w s = Some x"
  by (auto simp: closed_sessions split: if_splits dest: remove_sessions_le)

lemma index_inv_closed:
  assumes inv: "index_inv w"
  shows "index_inv (closed a r w)"
proof (cases "state (heap w a) = ST_CLOSED")
  case True
  then show ?thesis using inv by (simp add: closed_CLOSED)
next
  case False
  let ?w1 = "w\<lparr>heap := (heap w)(a := (heap w a)\<lparr>state := ST_CLOSED\<rparr>)\<rparr>"
  have "index_inv ?w1 = index_inv w" by (rule index_inv_cong) simp_all
  then have "index_inv (remove (id' (heap w a)) ?w1)" using inv by (simp add: index_inv_remove)
  then show ?thesis using False by (simp add: closed_def Let_def)
qed

lemma registered_open_closed:
  assumes inv: "index_inv w" and op: "registered_open w"
  shows "registered_open (closed a r w)"
  unfolding registered_open_def
proof (intro allI impI)
  fix s x
  assume reg': "sessions (closed a r w) s = Some x"
  then have reg: "sessions w s = Some x" by (rule closed_sessions_le)
  then have st: "state (heap w x) = ST_INITED" using op by (auto simp: registered_open_def)
  have "x \<noteq> a"
  proof
    assume xa: "x = a"
    then have ida: "id' (heap w a) = s" using index_invD(3)[OF inv reg] by simp
    let ?w1 = "w\<lparr>heap := (heap w)(a := (heap w a)\<lparr>state := ST_CLOSED\<rparr>)\<rparr>"
    have "sessions (remove s ?w1) = (sessions ?w1)(s := None)"
      by (rule remove_sessions[of _ _ a]) (use reg xa ida in simp_all)
    then show False using reg' st xa ida by (simp add: closed_sessions)
  qed
  then show "state (heap (closed a r w) x) = ST_INITED" using st by (simp add: closed_state_other)
qed

lemma no_zero_uid_closed: "no_zero_uid w \<Longrightarrow> no_zero_uid (closed a r w)"
  unfolding no_zero_uid_def by (auto dest: closed_sessions_le)

lemma create_frame [simp]:
  "heap (snd (create sid fid sock w)) = (heap w)(fresh w := Session sid fid sock)"
  "sessions (snd (create sid fid sock w)) = (sessions w)(sid \<mapsto> fresh w)"
  "uidMap (snd (create sid fid sock w)) = uidMap w"
  "fresh (snd (create sid fid sock w)) = Suc (fresh w)"
  "singleSession (snd (create sid fid sock w)) = singleSession w"
  "trace (snd (create sid fid sock w)) = trace w"
  by (simp_all add: create_def Let_def Session_def)

lemma good_create:
  assumes "registry_inv w \<and> no_zero_uid w" "sessions w sid = None"
  shows "registry_inv (snd (create sid fid sock w)) \<and> no_zero_uid (snd (create sid fid sock w))"
proof -
  from assms have inv: "index_inv w" and op: "registered_open w" and nz: "no_zero_uid w"
    by (simp_all add: registry_inv_def)
  have lt: "x < fresh w" if "sessions w s = Some x" for s x
    using index_invD(2)[OF inv that] .
  have "registered_open (snd (create sid fid sock w))"
    using op lt unfolding registered_open_def by (auto simp: Session_def split: if_splits)
  moreover have "no_zero_uid (snd (create sid fid sock w))"
    using nz lt unfolding no_zero_uid_def by (auto simp: Session_def split: if_splits)
  ultimately show ?thesis using index_inv_create[OF inv assms(2)] by (simp add: registry_inv_def)
qed

lemma good_bind:
  assumes "registry_inv w \<and> no_zero_uid w" "u \<noteq> 0"
  shows "registry_inv (snd (bind sid u cb w)) \<and> no_zero_uid (snd (bind sid u cb w))"
proof -
  from assms have inv: "index_inv w" and op: "registered_open w" and nz: "no_zero_uid w"
    by (simp_all add: registry_inv_def)
  have "registered_open (snd (bind sid u cb w))"
    using op by (simp add: registered_open_def)
  moreover have "no_zero_uid (snd (bind sid u cb w))"
    unfolding no_zero_uid_def
  proof (intro allI impI)
    fix s x assume "sessions (snd (bind sid u cb w)) s = Some x"
    then have "uid (heap w x) \<noteq> Some 0" using nz by (simp add: no_zero_uid_def)
    then show "uid (heap (snd (bind sid u cb w)) x) \<noteq> Some 0"
      using bind_uid[of sid u cb w x] assms(2) by auto
  qed
  ultimately show ?thesis using index_inv_bind[OF inv nz] by (simp add: registry_inv_def)
qed

lemma good_unbind:
  assumes "registry_inv w \<and> no_zero_uid w"
  shows "registry_inv (unbind sid u cb w) \<and> no_zero_uid (unbind sid u cb w)"
proof -
  from assms have inv: "index_inv w" and op: "registered_open w" and nz: "no_zero_uid w"
    by (simp_all add: registry_inv_def)
  have "registered_open (unbind sid u cb w)"
    using op by (simp add: registered_open_def)
  moreover have "no_zero_uid (unbind sid u cb w)"
    unfolding no_zero_uid_def
  proof (intro allI impI)
    fix s x assume "sessions (unbind sid u cb w) s = Some x"
    then have "uid (heap w x) \<noteq> Some 0" using nz by (simp add: no_zero_uid_def)
    then show "uid (heap (unbind sid u cb w) x) \<noteq> Some 0"
      using unbind_uid[of sid u cb w x] by auto
  qed
  ultimately show ?thesis using index_inv_unbind[OF inv] by (simp add: registry_inv_def)
qed

lemma good_remove:
  assumes "registry_inv w \<and> no_zero_uid w"
  shows "registry_inv (remove sid w) \<and> no_zero_uid (remove sid w)"
proof -
  from assms have inv: "index_inv w" and op: "registered_open w" and nz: "no_zero_uid w"
    by (simp_all add: registry_inv_def)
  have "registered_open (remove sid w)"
    using op unfolding registered_open_def by (auto dest: remove_sessions_le)
  moreover have "no_zero_uid (remove sid w)"
    using nz unfolding no_zero_uid_def by (auto dest: remove_sessions_le)
  ultimately show ?thesis using index_inv_remove[OF inv] by (simp add: registry_inv_def)
qed

lemma good_import_s:
  assumes "registry_inv w \<and> no_zero_uid w"
  shows "registry_inv (import_s sid k v cb w) \<and> no_zero_uid (import_s sid k v cb w)"
proof -
  have "index_inv (import_s sid k v cb w) = index_inv w" by (rule index_inv_cong) simp_all
  then show ?thesis using assms by (simp add: registry_inv_def registered_open_def no_zero_uid_def)
qed

lemma good_importAll:
  assumes "registry_inv w \<and> no_zero_uid w"
  shows "registry_inv (importAll sid sets cb w) \<and> no_zero_uid (importAll sid sets cb w)"
proof -
  have "index_inv (importAll sid sets cb w) = index_inv w" by (rule index_inv_cong) simp_all
  then show ?thesis using assms by (simp add: registry_inv_def registered_open_def no_zero_uid_def)
qed

lemma good_closed:
  assumes "registry_inv w \<and> no_zero_uid w"
  shows "registry_inv (closed a r w) \<and> no_zero_uid (closed a r w)"
  using assms index_inv_closed registered_open_closed no_zero_uid_closed
  by (simp add: registry_inv_def)

lemma good_closeAll:
  "registry_inv w \<and> no_zero_uid w \<Longrightarrow>
     registry_inv (snd (closeAll sids r w)) \<and> no_zero_uid (snd (closeAll sids r w))"
proof (induction sids arbitrary: w)
  case Nil
  then show ?case by simp
next
  case (Cons sid sids)
  show ?case
  proof (cases "sessions w sid")
    case None
    then show ?thesis using Cons.prems by simp
  next
    case (Some a)
    then show ?thesis using Cons.IH[OF good_closed[OF Cons.prems, of a r]] by simp
  qed
qed

lemma good_kick:
  assumes "registry_inv w \<and> no_zero_uid w"
  shows "registry_inv (snd (kick u reason cb w)) \<and> no_zero_uid (snd (kick u reason cb w))"
proof -
  have *: "registry_inv (snd (closeAll sids r w)) \<and> no_zero_uid (snd (closeAll sids r w))" for sids r
    by (rule good_closeAll[OF assms])
  have em: "registry_inv (emit e w') = registry_inv w'" for e w'
    by (simp add: registry_inv_def)
  show ?thesis
  proof (cases "getByUid u w")
    case None
    then show ?thesis using assms by (simp add: kick_def Let_def em)
  next
    case (Some b)
    let ?r = "if isFunction reason then Str ''kick'' else reason"
    let ?res = "closeAll (map (\<lambda>a. id' (heap w a)) b) ?r w"
    show ?thesis
      using Some *[of "map (\<lambda>a. id' (heap w a)) b" ?r]
      by (cases ?res; cases "fst ?res") (simp_all add: kick_def Let_def em)
  qed
qed

lemma good_kickBySessionId:
  assumes "registry_inv w \<and> no_zero_uid w"
  shows "registry_inv (kickBySessionId sid reason cb w) \<and>
         no_zero_uid (kickBySessionId sid reason cb w)"
proof -
  have em: "registry_inv (emit e w') = registry_inv w'" for e w'
    by (simp add: registry_inv_def)
  show ?thesis using assms good_closed[OF assms]
    by (simp add: kickBySessionId_def Let_def em split: option.splits)
qed

lemma good_exec:
  assumes "registry_inv w \<and> no_zero_uid w" "admissible x w"
  shows "registry_inv (exec x w) \<and> no_zero_uid (exec x w)"
proof (cases x)
  case (Create sid fid sock)
  then show ?thesis using good_create[OF assms(1)] assms(2) by simp
next
  case (Bind sid u cb)
  then show ?thesis using good_bind[OF assms(1)] assms(2) by simp
next
  case (Unbind sid u cb)
  then show ?thesis using good_unbind[OF assms(1)] by simp
next
  case (Remove sid)
  then show ?thesis using good_remove[OF assms(1)] by simp
next
  case (Import sid k v cb)
  then show ?thesis using good_import_s[OF assms(1)] by simp
next
  case (ImportAll sid sets cb)
  then show ?thesis using good_importAll[OF assms(1)] by simp
next
  case (Kick u reason cb)
  then show ?thesis using good_kick[OF assms(1)] by simp
next
  case (KickBySessionId sid reason cb)
  then show ?thesis using good_kickBySessionId[OF assms(1)] by simp
next
  case (Closed a reason)
  then show ?thesis using good_closed[OF assms(1)] assms(1) by simp
qed

lemma good_run:
  "registry_inv w \<and> no_zero_uid w \<Longrightarrow> disciplined xs w \<Longrightarrow>
     registry_inv (run xs w) \<and> no_zero_uid (run xs w)"
proof (induction xs arbitrary: w)
  case Nil
  then show ?case by simp
next
  case (Cons x xs)
  then show ?case using good_exec[of w x] by simp
qed

lemma good_SessionService: "registry_inv (SessionService b) \<and> no_zero_uid (SessionService b)"
  by (simp add: registry_inv_def index_inv_def registered_open_def no_zero_uid_def
      SessionService_def)

lemma distinct_count_list_one: "distinct b \<Longrightarrow> a \<in> set b \<Longrightarrow> count_list b a = 1"
  by (induction b) auto

lemma registry_inv_uid_index_ok:
  assumes "registry_inv w"
  shows "uid_index_ok w"
proof -
  from assms have inv: "index_inv w" by (simp add: registry_inv_def)
  have one: "\<exists>b. uidMap w u = Some b \<and> count_list b a = 1"
    if "sessions w sid = Some a" "uid (heap w a) = Some u" for sid a u
  proof -
    from index_invD(4)[OF inv that] obtain b where b: "uidMap w u = Some b" "a \<in> set b"
      by blast
    from index_invD(6)[OF inv b(1)] b(2) have "count_list b a = 1"
      by (rule distinct_count_list_one)
    with b show ?thesis by blast
  qed
  have only: "u' = u"
    if "uid (heap w a) = Some u" "uidMap w u' = Some b'" "a \<in> set b'" for a u u' b'
    using index_invD(8)[OF inv that(2,3)] that(1) by simp
  have member: "(\<exists>sid. sessions w sid = Some a) \<and> uid (heap w a) = Some u"
    if "uidMap w u = Some b" "a \<in> set b" for u b a
    using index_invD(7,8)[OF inv that] by blast
  show ?thesis unfolding uid_index_ok_def using one only member by blast
qed

lemma closed_trace:
  "trace (closed a r w) =
     (if state (heap w a) = ST_CLOSED then trace w else trace w @ closing_events (heap w) r a)"
  by (simp add: closed_def Let_def closing_events_def toFrontendSession_def)

lemma closed_socket [simp]: "socket (heap (closed a r w) x) = socket (heap w x)"
  "frontendId (heap (closed a r w) x) = frontendId (heap w x)"
  by (simp_all add: closed_def Let_def)

lemma closing_events_closed [simp]:
  "closing_events (heap (closed a r w)) r' x = closing_events (heap w) r' x"
  by (simp add: closing_events_def toFrontendSession_def)

text \<open>Closing a registered, open Session that sits at the head of its bucket.\<close>

lemma closed_head:
  assumes inv: "registry_inv w" and bk: "uidMap w u = Some (a # as)"
  shows "sessions (closed a r w) = (sessions w)(id' (heap w a) := None)"
    and "uidMap (closed a r w) = (uidMap w)(u := (if as = [] then None else Some as))"
    and "trace (closed a r w) = trace w @ closing_events (heap w) r a"
    and "sessions w (id' (heap w a)) = Some a"
proof -
  from inv have ii: "index_inv w" and op: "registered_open w" by (simp_all add: registry_inv_def)
  have reg: "sessions w (id' (heap w a)) = Some a" and ua: "uid (heap w a) = Some u"
    using index_invD(7,8)[OF ii bk, of a] by simp_all
  then have st: "state (heap w a) = ST_INITED" using op by (auto simp: registered_open_def)
  let ?w1 = "w\<lparr>heap := (heap w)(a := (heap w a)\<lparr>state := ST_CLOSED\<rparr>)\<rparr>"
  have "index_inv ?w1 = index_inv w" by (rule index_inv_cong) simp_all
  then have i1: "index_inv ?w1" using ii by simp
  have reg1: "sessions ?w1 (id' (heap w a)) = Some a" using reg by simp
  show "sessions (closed a r w) = (sessions w)(id' (heap w a) := None)"
    using st remove_sessions[OF reg1] by (simp add: closed_sessions)
  have "uidMap (remove (id' (heap w a)) ?w1) = drop_from u a (uidMap w)"
    using remove_uidMap[OF i1 reg1] ua by simp
  moreover have "drop_from u a (uidMap w) = (uidMap w)(u := (if as = [] then None else Some as))"
    using bk by (auto simp: drop_from_def)
  ultimately show "uidMap (closed a r w) = (uidMap w)(u := (if as = [] then None else Some as))"
    using st by (simp add: closed_uidMap)
  show "trace (closed a r w) = trace w @ closing_events (heap w) r a"
    using st by (simp add: closed_trace)
  show "sessions w (id' (heap w a)) = Some a" by (rule reg)
qed

lemma closeAll_bucket:
  "registry_inv w \<Longrightarrow> uidMap w u = (if as = [] then None else Some as) \<Longrightarrow>
     fst (closeAll (map (\<lambda>a. id' (heap w a)) as) r w) = None \<and>
     registry_inv (snd (closeAll (map (\<lambda>a. id' (heap w a)) as) r w)) \<and>
     uidMap (snd (closeAll (map (\<lambda>a. id' (heap w a)) as) r w)) = (uidMap w)(u := None) \<and>
     sessions (snd (closeAll (map (\<lambda>a. id' (heap w a)) as) r w)) =
       (\<lambda>s. if s \<in> (\<lambda>a. id' (heap w a)) ` set as then None else sessions w s) \<and>
     (\<forall>x. state (heap (snd (closeAll (map (\<lambda>a. id' (heap w a)) as) r w)) x) =
           (if x \<in> set as then ST_CLOSED else state (heap w x))) \<and>
     trace (snd (closeAll (map (\<lambda>a. id' (heap w a)) as) r w)) =
       trace w @ concat (map (closing_events (heap w) r) as)"
proof (induction as arbitrary: w)
  case Nil
  then show ?case by (auto simp: fun_upd_idem)
next
  case (Cons a as)
  let ?w1 = "closed a r w"
  from Cons.prems have inv: "registry_inv w" and bk: "uidMap w u = Some (a # as)" by simp_all
  note hd = closed_head[OF inv bk]
  have inv1: "registry_inv ?w1"
    using inv index_inv_closed registered_open_closed by (simp add: registry_inv_def)
  have bk1: "uidMap ?w1 u = (if as = [] then None else Some as)" by (simp add: hd(2))
  have ids: "map (\<lambda>x. id' (heap w x)) as = map (\<lambda>x. id' (heap ?w1 x)) as" by simp
  note IH = Cons.IH[OF inv1 bk1, folded ids]
  have step: "closeAll (map (\<lambda>a. id' (heap w a)) (a # as)) r w =
      closeAll (map (\<lambda>a. id' (heap w a)) as) r ?w1"
    using hd(4) by simp
  have dist: "a \<notin> set as"
    using inv bk index_invD(6)[of w u "a # as"] by (simp add: registry_inv_def)
  have sta: "state (heap ?w1 x) = (if x = a then ST_CLOSED else state (heap w x))" for x
    by (simp add: closed_state closed_state_other)
  show ?case
    unfolding step
    using IH by (auto simp: hd(1,2,3) sta fun_eq_iff)
qed

section \<open>Evaluation and the state of a Session\<close>

lemmas eval_defs = bind_def unbind_def create_def remove_def closed_def kick_def
  kickBySessionId_def import_s_def importAll_def invokeCallback_def Session_def Session_bind_def
  Session_unbind_def SessionService_def emit_def getByUid_def toFrontendSession_def dclone_def
  getprop_def closing_events_def Let_def



section \<open>Session.closed\<close>






section \<open>Delivery of the callback\<close>

text \<open>
  Claim C4 says that bind and unbind never run the callback before they return. Binding
  Session 1, already bound to uid 7, to uid 7 again runs the callback inside the call: the
  last event is \<open>Now\<close>, not \<open>NextTick\<close>.
\<close>

theorem bind_same_uid_calls_back_now:
  "trace (snd (bind 1 7 (Fn 1)
      (run [Create 1 ''f1'' 0, Bind 1 7 (Fn 0)] (SessionService False)))) =
     [EmitBind 0 7, NextTick (Call (Fn 0) None), Now (Fn 1) None]"
  by (simp add: eval_defs)

text \<open>
  It is the only such branch: unbind never runs the callback inside the call, and bind does
  so only for a Session already bound to the given uid.
\<close>

lemma unbind_defers:
  "\<exists>evs. trace (unbind sid u cb w) = trace w @ evs \<and> (\<forall>e \<in> set evs. \<not> is_Now e)"
  by (simp add: unbind_def Let_def Session_unbind_def split: option.splits)

lemma bind_defers:
  assumes "\<And>a. sessions w sid = Some a \<Longrightarrow> uid (heap w a) = Some u \<Longrightarrow> u = 0"
  shows "\<exists>evs. trace (snd (bind sid u cb w)) = trace w @ evs \<and> (\<forall>e \<in> set evs. \<not> is_Now e)"
  using assms by (auto simp: bind_def Let_def Session_bind_def split: option.splits)

section \<open>unbind\<close>

text \<open>
  Claim C3 says that unbinding a Session from the uid it is bound to succeeds. For the uid
  \<open>0\<close> it does not: Session 1, bound to uid 0 and alone in the bucket of 0, is answered
  \<open>NotBound\<close>, and nothing else changes.
\<close>

theorem unbind_uid_zero:
  "let w = run [Create 1 ''f1'' 0, Bind 1 0 (Fn 0)] (SessionService False) in
     sessions w 1 = Some 0 \<and> uid (heap w 0) = Some 0 \<and> uidMap w 0 = Some [0] \<and>
     unbind 1 0 (Fn 1) w = emit (NextTick (Call (Fn 1) (Some (NotBound (Some 0))))) w"
  by (simp add: eval_defs)

text \<open>The events of that run: the bind, its callback, and the refusal.\<close>

theorem unbind_uid_zero_witness:
  "trace (unbind 1 0 (Fn 1) (run [Create 1 ''f1'' 0, Bind 1 0 (Fn 0)] (SessionService False))) =
     [EmitBind 0 0, NextTick (Call (Fn 0) None),
      NextTick (Call (Fn 1) (Some (NotBound (Some 0))))]"
  using unbind_uid_zero by (simp add: eval_defs)

text \<open>
  For every other uid the claim holds on a registry that satisfies the invariant: the
  Session leaves its bucket, the bucket goes when it is empty, the uid is cleared, \<open>unbind\<close>
  is emitted and the callback is scheduled without an error.
\<close>

lemma unbind_bound:
  assumes inv: "registry_inv w" and reg: "sessions w sid = Some a"
    and bound: "uid (heap w a) = Some u" and nz: "u \<noteq> 0" and cb: "truthy cb"
  shows "\<exists>b. uidMap w u = Some b \<and> a \<in> set b \<and>
     unbind sid u cb w =
       emit (NextTick (Call cb None)) (emit (EmitUnbind a u)
         (w\<lparr>uidMap := (uidMap w)(u := (if remove1 a b = [] then None else Some (remove1 a b))),
            heap := (heap w)(a := (heap w a)\<lparr>uid := None\<rparr>)\<rparr>))"
proof -
  from inv have ii: "index_inv w" by (simp add: registry_inv_def)
  from index_invD(4)[OF ii reg bound] obtain b where b: "uidMap w u = Some b" "a \<in> set b"
    by blast
  have sp: "splice_id (heap w) sid b = Some (remove1 a b)"
    using splice_id_bucket[OF ii reg b(1)] b(2) by simp
  have "unbind sid u cb w =
       emit (NextTick (Call cb None)) (emit (EmitUnbind a u)
         (w\<lparr>uidMap := (uidMap w)(u := (if remove1 a b = [] then None else Some (remove1 a b))),
            heap := (heap w)(a := (heap w a)\<lparr>uid := None\<rparr>)\<rparr>))"
    using reg bound nz cb b sp by (simp add: unbind_def Let_def Session_unbind_def emit_def)
  with b show ?thesis by blast
qed

text \<open>
  The same test, \<open>if (session.uid)\<close>, lets bind take a Session bound to the uid \<open>0\<close> for an
  unbound one: Session 1, bound to 0, is bound to 5 as well and then sits in both buckets.
\<close>

lemma bind_uid_zero_rebinds:
  "uidMap (run [Create 1 ''f1'' 0, Bind 1 0 (Fn 0), Bind 1 5 (Fn 1)] (SessionService False)) 0
     = Some [0] \<and>
   uidMap (run [Create 1 ''f1'' 0, Bind 1 0 (Fn 0), Bind 1 5 (Fn 1)] (SessionService False)) 5
     = Some [0] \<and>
   uid (heap (run [Create 1 ''f1'' 0, Bind 1 0 (Fn 0), Bind 1 5 (Fn 1)]
     (SessionService False)) 0) = Some 5"
  by (simp add: eval_defs)

section \<open>The invariant of the uid index\<close>

text \<open>
  Claim C2, amended. In every registry reached from the empty one by public operations
  that create a sid only while it is not registered and never bind the uid \<open>0\<close>, a
  registered Session with a uid is exactly once in the uid index, in the bucket of its uid,
  and every Session in a bucket is registered with the bucket's key as its uid.
\<close>

theorem uid_index_kept:
  "disciplined xs (SessionService single) \<Longrightarrow> uid_index_ok (run xs (SessionService single))"
  using good_run[OF good_SessionService] by (simp add: registry_inv_uid_index_ok)

text \<open>Two Sessions bound to uid 42, one unbound again, the other kicked.\<close>

theorem uid_index_kept_witness:
  "disciplined [Create 1 ''f1'' 0, Create 2 ''f1'' 1, Bind 1 42 (Fn 0), Bind 2 42 (Fn 1),
       Unbind 1 42 (Fn 2), Kick 42 (Str ''admin'') (Fn 3)] (SessionService False) \<and>
   uid_index_ok (run [Create 1 ''f1'' 0, Create 2 ''f1'' 1, Bind 1 42 (Fn 0), Bind 2 42 (Fn 1),
       Unbind 1 42 (Fn 2), Kick 42 (Str ''admin'') (Fn 3)] (SessionService False))"
proof -
  have d: "disciplined [Create 1 ''f1'' 0, Create 2 ''f1'' 1, Bind 1 42 (Fn 0), Bind 2 42 (Fn 1),
       Unbind 1 42 (Fn 2), Kick 42 (Str ''admin'') (Fn 3)] (SessionService False)"
    by (simp add: SessionService_def)
  from d uid_index_kept[OF d] show ?thesis by simp
qed

text \<open>
  Claim C2 as stated, for every sequence of public operations, fails: after create(1),
  bind(1, 7) and a second create(1), the bucket of 7 holds the first Session object, which
  is no longer registered.
\<close>

theorem uid_index_counterexample:
  "\<not> uid_index_ok (run [Create 1 ''f1'' 0, Bind 1 7 (Fn 0), Create 1 ''f1'' 1]
       (SessionService False))"
proof
  let ?w = "run [Create 1 ''f1'' 0, Bind 1 7 (Fn 0), Create 1 ''f1'' 1] (SessionService False)"
  assume ok: "uid_index_ok ?w"
  have b: "uidMap ?w 7 = Some [0]" and s: "sessions ?w sid \<noteq> Some 0" for sid
    by (simp_all add: eval_defs)
  from ok b have "\<exists>sid. sessions ?w sid = Some 0"
    unfolding uid_index_ok_def by (metis list.set_intros(1))
  with s show False by blast
qed

section \<open>kick\<close>

lemma bucket_ids:
  assumes ii: "index_inv w" and bk: "uidMap w u = Some b"
  shows "inj_on (\<lambda>a. id' (heap w a)) (set b)"
    and "(\<lambda>a. id' (heap w a)) ` set b \<subseteq> dom (sessions w)"
proof -
  show "inj_on (\<lambda>a. id' (heap w a)) (set b)"
  proof (rule inj_onI)
    fix x y assume xy: "x \<in> set b" "y \<in> set b" and e: "id' (heap w x) = id' (heap w y)"
    have "sessions w (id' (heap w x)) = Some x" "sessions w (id' (heap w y)) = Some y"
      using index_invD(7)[OF ii bk] xy by blast+
    then show "x = y" unfolding e by (metis option.inject)
  qed
  show "(\<lambda>a. id' (heap w a)) ` set b \<subseteq> dom (sessions w)"
    using index_invD(7)[OF ii bk] by auto
qed

text \<open>
  kick on a registry that satisfies the invariant, for any two arguments after the uid:
  \<open>reason\<close> and \<open>cb\<close> as the first lines of kick leave them.
\<close>

lemma kick_bucket:
  assumes inv: "registry_inv w" and bk: "uidMap w u = Some b"
    and r1: "r1 = (if isFunction reason then Str ''kick'' else reason)"
    and c1: "c1 = (if isFunction reason then reason else cb)"
  shows "fst (kick u reason cb w) = None"
    and "\<forall>a \<in> set b. state (heap (snd (kick u reason cb w)) a) = ST_CLOSED"
    and "getSessionsCount (snd (kick u reason cb w)) + length b = getSessionsCount w"
    and "uidMap (snd (kick u reason cb w)) u = None"
    and "\<forall>a \<in> set b. sessions (snd (kick u reason cb w)) (id' (heap w a)) = None"
    and "trace (snd (kick u reason cb w)) =
           trace w @ concat (map (closing_events (heap w) r1) b) @ [NextTick (Invoke c1 None)]"
proof -
  from inv have ii: "index_inv w" by (simp add: registry_inv_def)
  let ?sids = "map (\<lambda>a. id' (heap w a)) b"
  let ?res = "closeAll ?sids r1 w"
  have ne: "b \<noteq> []" using index_invD(5)[OF ii bk] .
  then have pre: "uidMap w u = (if b = [] then None else Some b)" using bk by simp
  note ca = closeAll_bucket[OF inv pre, of r1]
  have k: "kick u reason cb w = (None, emit (NextTick (Invoke c1 None)) (snd ?res))"
    using bk ca by (cases ?res) (simp add: kick_def getByUid_def Let_def r1 c1)
  show "fst (kick u reason cb w) = None" by (simp add: k)
  show "\<forall>a \<in> set b. state (heap (snd (kick u reason cb w)) a) = ST_CLOSED"
    using ca by (simp add: k)
  show "uidMap (snd (kick u reason cb w)) u = None" using ca by (simp add: k)
  show "\<forall>a \<in> set b. sessions (snd (kick u reason cb w)) (id' (heap w a)) = None"
    using ca by (simp add: k)
  show "trace (snd (kick u reason cb w)) =
      trace w @ concat (map (closing_events (heap w) r1) b) @ [NextTick (Invoke c1 None)]"
    using ca by (simp add: k)
  show "getSessionsCount (snd (kick u reason cb w)) + length b = getSessionsCount w"
  proof -
    let ?I = "(\<lambda>a. id' (heap w a)) ` set b"
    have fin: "finite (dom (sessions w))" using index_invD(1)[OF ii] .
    have sub: "?I \<subseteq> dom (sessions w)" using bucket_ids(2)[OF ii bk] .
    have "card ?I = card (set b)" using bucket_ids(1)[OF ii bk] by (rule card_image)
    also have "\<dots> = length b" using index_invD(6)[OF ii bk] by (rule distinct_card)
    finally have cI: "card ?I = length b" .
    have "dom (sessions (snd ?res)) = dom (sessions w) - ?I"
      using ca by (auto simp: dom_def split: if_splits)
    then have "card (dom (sessions (snd ?res))) = card (dom (sessions w)) - card ?I"
      using fin sub by (simp add: card_Diff_subset finite_subset)
    moreover have "card ?I \<le> card (dom (sessions w))" using fin sub by (rule card_mono)
    ultimately show ?thesis using cI by (simp add: getSessionsCount_def k)
  qed
qed

text \<open>
  Claim C5, amended. On a registry that satisfies the invariant (as every registry does
  that was reached with sids created only while unregistered and without the uid \<open>0\<close>),
  kick(uid, reason, cb) with a reason that is not a function returns normally; with no bucket
  for the uid it only schedules the callback; otherwise it closes every Session of the
  bucket through \<open>closed(reason)\<close>, in bucket order, the count of registered sids drops by the
  length of the bucket, the bucket is gone, none of the sids stays registered, and the
  callback is scheduled last, without an error.
\<close>

theorem kick_closes_bucket:
  assumes inv: "registry_inv w" and reason: "\<not> isFunction reason"
  shows "(uidMap w u = None \<longrightarrow>
            kick u reason cb w = (None, emit (NextTick (Invoke cb None)) w)) \<and>
         (\<forall>b. uidMap w u = Some b \<longrightarrow>
            fst (kick u reason cb w) = None \<and>
            (\<forall>a \<in> set b. state (heap (snd (kick u reason cb w)) a) = ST_CLOSED) \<and>
            getSessionsCount (snd (kick u reason cb w)) + length b = getSessionsCount w \<and>
            uidMap (snd (kick u reason cb w)) u = None \<and>
            (\<forall>a \<in> set b. sessions (snd (kick u reason cb w)) (id' (heap w a)) = None) \<and>
            trace (snd (kick u reason cb w)) =
              trace w @ concat (map (closing_events (heap w) reason) b) @
              [NextTick (Invoke cb None)])"
proof (intro conjI allI impI)
  assume "uidMap w u = None"
  then show "kick u reason cb w = (None, emit (NextTick (Invoke cb None)) w)"
    using reason by (simp add: kick_def getByUid_def)
next
  fix b assume bk: "uidMap w u = Some b"
  have r1: "reason = (if isFunction reason then Str ''kick'' else reason)"
    and c1: "cb = (if isFunction reason then reason else cb)"
    using reason by simp_all
  note kb = kick_bucket[OF inv bk r1 c1]
  show "fst (kick u reason cb w) = None" by (rule kb(1))
  show "\<forall>a \<in> set b. state (heap (snd (kick u reason cb w)) a) = ST_CLOSED" by (rule kb(2))
  show "getSessionsCount (snd (kick u reason cb w)) + length b = getSessionsCount w"
    by (rule kb(3))
  show "uidMap (snd (kick u reason cb w)) u = None" by (rule kb(4))
  show "\<forall>a \<in> set b. sessions (snd (kick u reason cb w)) (id' (heap w a)) = None"
    by (rule kb(5))
  show "trace (snd (kick u reason cb w)) =
      trace w @ concat (map (closing_events (heap w) reason) b) @ [NextTick (Invoke cb None)]"
    by (rule kb(6))
qed


text \<open>The scenario of the specification: sids 1 and 2 bound to uid 42, then kick(42).\<close>

theorem kick_closes_bucket_witness:
  "registry_inv (run [Create 1 ''f1'' 0, Create 2 ''f1'' 1, Bind 1 42 (Fn 0), Bind 2 42 (Fn 1)]
       (SessionService False)) \<and>
   \<not> isFunction (Str ''admin'') \<and>
   uidMap (run [Create 1 ''f1'' 0, Create 2 ''f1'' 1, Bind 1 42 (Fn 0), Bind 2 42 (Fn 1)]
       (SessionService False)) 42 = Some [0, 1] \<and>
   fst (kick 42 (Str ''admin'') (Fn 3)
     (run [Create 1 ''f1'' 0, Create 2 ''f1'' 1, Bind 1 42 (Fn 0), Bind 2 42 (Fn 1)]
       (SessionService False))) = None \<and>
   uidMap (snd (kick 42 (Str ''admin'') (Fn 3)
     (run [Create 1 ''f1'' 0, Create 2 ''f1'' 1, Bind 1 42 (Fn 0), Bind 2 42 (Fn 1)]
       (SessionService False)))) 42 = None \<and>
   getSessionsCount (snd (kick 42 (Str ''admin'') (Fn 3)
     (run [Create 1 ''f1'' 0, Create 2 ''f1'' 1, Bind 1 42 (Fn 0), Bind 2 42 (Fn 1)]
       (SessionService False)))) + 2 =
   getSessionsCount (run [Create 1 ''f1'' 0, Create 2 ''f1'' 1, Bind 1 42 (Fn 0), Bind 2 42 (Fn 1)]
       (SessionService False))"
proof -
  let ?xs = "[Create 1 ''f1'' 0, Create 2 ''f1'' 1, Bind 1 42 (Fn 0), Bind 2 42 (Fn 1)]"
  let ?w = "run ?xs (SessionService False)"
  have "disciplined ?xs (SessionService False)" by (simp add: SessionService_def)
  then have inv: "registry_inv ?w" using good_run[OF good_SessionService] by blast
  have r: "\<not> isFunction (Str ''admin'')" by simp
  have bk: "uidMap ?w 42 = Some [0, 1]" by (simp add: eval_defs)
  from kick_closes_bucket[OF inv r, of 42 "Fn 3"] bk
  have "fst (kick 42 (Str ''admin'') (Fn 3) ?w) = None \<and>
        uidMap (snd (kick 42 (Str ''admin'') (Fn 3) ?w)) 42 = None \<and>
        getSessionsCount (snd (kick 42 (Str ''admin'') (Fn 3) ?w)) + length [0::nat, 1] =
          getSessionsCount ?w"
    by blast
  then show ?thesis using inv r bk by simp
qed

text \<open>
  Claim C5 as stated, for every registry, fails: after create(1), bind(1, 7) and a second
  create(1), kick(7) closes the Session registered under sid 1, which is not the one in the
  bucket; the bucket of 7 is still there and its Session is still open.
\<close>

theorem kick_leaves_bucket_counterexample:
  "uidMap (run [Create 1 ''f1'' 0, Bind 1 7 (Fn 0), Create 1 ''f1'' 1] (SessionService False)) 7
     = Some [0] \<and>
   uidMap (snd (kick 7 (Str ''admin'') (Fn 1)
     (run [Create 1 ''f1'' 0, Bind 1 7 (Fn 0), Create 1 ''f1'' 1] (SessionService False)))) 7
     = Some [0] \<and>
   state (heap (snd (kick 7 (Str ''admin'') (Fn 1)
     (run [Create 1 ''f1'' 0, Bind 1 7 (Fn 0), Create 1 ''f1'' 1] (SessionService False)))) 0)
     = ST_INITED"
  by (simp add: eval_defs)

section \<open>kick and kickBySessionId without a reason\<close>

text \<open>
  kickBySessionId for any two arguments after the sid: an unregistered sid only schedules
  the callback; a registered Session is closed with the reason, and then the callback is
  scheduled.
\<close>

lemma kickBySessionId_effect:
  assumes r1: "r1 = (if isFunction reason then Str ''kick'' else reason)"
    and c1: "c1 = (if isFunction reason then reason else cb)"
  shows "sessions w sid = None \<Longrightarrow>
           kickBySessionId sid reason cb w = emit (NextTick (Invoke c1 None)) w"
    and "sessions w sid = Some a \<Longrightarrow>
           kickBySessionId sid reason cb w = emit (NextTick (Invoke c1 None)) (closed a r1 w)"
    and "sessions w sid = Some a \<Longrightarrow> state (heap (kickBySessionId sid reason cb w) a) = ST_CLOSED"
    and "sessions w sid = Some a \<Longrightarrow> state (heap w a) = ST_INITED \<Longrightarrow>
           trace (kickBySessionId sid reason cb w) =
             trace w @ closing_events (heap w) r1 a @ [NextTick (Invoke c1 None)]"
    and "sessions w sid = Some a \<Longrightarrow> state (heap w a) = ST_INITED \<Longrightarrow> id' (heap w a) = sid \<Longrightarrow>
           sessions (kickBySessionId sid reason cb w) = (sessions w)(sid := None)"
proof -
  show "kickBySessionId sid reason cb w = emit (NextTick (Invoke c1 None)) w"
    if "sessions w sid = None"
    using that by (simp add: kickBySessionId_def Let_def c1)
  show k: "kickBySessionId sid reason cb w = emit (NextTick (Invoke c1 None)) (closed a r1 w)"
    if "sessions w sid = Some a"
    using that by (simp add: kickBySessionId_def Let_def c1 r1)
  show "state (heap (kickBySessionId sid reason cb w) a) = ST_CLOSED" if "sessions w sid = Some a"
    by (simp add: k[OF that] closed_state)
  show "trace (kickBySessionId sid reason cb w) =
      trace w @ closing_events (heap w) r1 a @ [NextTick (Invoke c1 None)]"
    if "sessions w sid = Some a" "state (heap w a) = ST_INITED"
    using that(2) by (simp add: k[OF that(1)] closed_trace)
  show "sessions (kickBySessionId sid reason cb w) = (sessions w)(sid := None)"
    if "sessions w sid = Some a" "state (heap w a) = ST_INITED" "id' (heap w a) = sid"
    using that by (simp add: k[OF that(1)] closed_sessions remove_sessions)
qed

text \<open>
  Claim C10. With a function in the \<open>reason\<close> position, kick and kickBySessionId behave
  exactly like the three-argument form with the reason \<open>'kick'\<close> and that function as the
  callback; what stands in the \<open>cb\<close> position is ignored. What they do: kick without a
  bucket for the uid only schedules the function; on a registry that satisfies the
  invariant kick closes every Session of the bucket with the reason \<open>'kick'\<close>, unregisters
  their sids, removes the bucket and schedules the function last; kickBySessionId on an
  unregistered sid only schedules the function, and on a registered one closes that Session
  with the reason \<open>'kick'\<close> and then schedules the function.
\<close>

theorem kick_default_reason:
  "kick u (Fn f) cb w = kick u (Str ''kick'') (Fn f) w \<and>
   kickBySessionId sid (Fn f) cb w = kickBySessionId sid (Str ''kick'') (Fn f) w \<and>
   (uidMap w u = None \<longrightarrow>
      kick u (Fn f) cb w = (None, emit (NextTick (Invoke (Fn f) None)) w)) \<and>
   (registry_inv w \<longrightarrow>
      (\<forall>b. uidMap w u = Some b \<longrightarrow>
         fst (kick u (Fn f) cb w) = None \<and>
         (\<forall>a \<in> set b. state (heap (snd (kick u (Fn f) cb w)) a) = ST_CLOSED) \<and>
         getSessionsCount (snd (kick u (Fn f) cb w)) + length b = getSessionsCount w \<and>
         uidMap (snd (kick u (Fn f) cb w)) u = None \<and>
         (\<forall>a \<in> set b. sessions (snd (kick u (Fn f) cb w)) (id' (heap w a)) = None) \<and>
         trace (snd (kick u (Fn f) cb w)) =
           trace w @ concat (map (closing_events (heap w) (Str ''kick'')) b) @
           [NextTick (Invoke (Fn f) None)])) \<and>
   (sessions w sid = None \<longrightarrow>
      kickBySessionId sid (Fn f) cb w = emit (NextTick (Invoke (Fn f) None)) w) \<and>
   (\<forall>a. sessions w sid = Some a \<longrightarrow>
      kickBySessionId sid (Fn f) cb w =
        emit (NextTick (Invoke (Fn f) None)) (closed a (Str ''kick'') w) \<and>
      state (heap (kickBySessionId sid (Fn f) cb w) a) = ST_CLOSED \<and>
      (state (heap w a) = ST_INITED \<longrightarrow>
         trace (kickBySessionId sid (Fn f) cb w) =
           trace w @ closing_events (heap w) (Str ''kick'') a @
           [NextTick (Invoke (Fn f) None)] \<and>
         (id' (heap w a) = sid \<longrightarrow>
            sessions (kickBySessionId sid (Fn f) cb w) = (sessions w)(sid := None))))"
proof (intro conjI allI impI)
  have r1: "Str ''kick'' = (if isFunction (Fn f) then Str ''kick'' else Fn f)"
    and c1: "Fn f = (if isFunction (Fn f) then Fn f else cb)"
    by simp_all
  note ks = kickBySessionId_effect[OF r1 c1]
  show "kick u (Fn f) cb w = kick u (Str ''kick'') (Fn f) w"
    by (simp add: kick_def)
  show "kickBySessionId sid (Fn f) cb w = kickBySessionId sid (Str ''kick'') (Fn f) w"
    by (simp add: kickBySessionId_def)
  show "kick u (Fn f) cb w = (None, emit (NextTick (Invoke (Fn f) None)) w)"
    if "uidMap w u = None"
    using that by (simp add: kick_def getByUid_def)
  show "fst (kick u (Fn f) cb w) = None" if "registry_inv w" "uidMap w u = Some b" for b
    by (rule kick_bucket(1)[OF that r1 c1])
  show "\<forall>a \<in> set b. state (heap (snd (kick u (Fn f) cb w)) a) = ST_CLOSED"
    if "registry_inv w" "uidMap w u = Some b" for b
    by (rule kick_bucket(2)[OF that r1 c1])
  show "getSessionsCount (snd (kick u (Fn f) cb w)) + length b = getSessionsCount w"
    if "registry_inv w" "uidMap w u = Some b" for b
    by (rule kick_bucket(3)[OF that r1 c1])
  show "uidMap (snd (kick u (Fn f) cb w)) u = None"
    if "registry_inv w" "uidMap w u = Some b" for b
    by (rule kick_bucket(4)[OF that r1 c1])
  show "\<forall>a \<in> set b. sessions (snd (kick u (Fn f) cb w)) (id' (heap w a)) = None"
    if "registry_inv w" "uidMap w u = Some b" for b
    by (rule kick_bucket(5)[OF that r1 c1])
  show "trace (snd (kick u (Fn f) cb w)) =
      trace w @ concat (map (closing_events (heap w) (Str ''kick'')) b) @
      [NextTick (Invoke (Fn f) None)]"
    if "registry_inv w" "uidMap w u = Some b" for b
    by (rule kick_bucket(6)[OF that r1 c1])
  show "kickBySessionId sid (Fn f) cb w = emit (NextTick (Invoke (Fn f) None)) w"
    if "sessions w sid = None"
    by (rule ks(1)[OF that])
  show "kickBySessionId sid (Fn f) cb w =
      emit (NextTick (Invoke (Fn f) None)) (closed a (Str ''kick'') w)"
    if "sessions w sid = Some a" for a
    by (rule ks(2)[OF that])
  show "state (heap (kickBySessionId sid (Fn f) cb w) a) = ST_CLOSED"
    if "sessions w sid = Some a" for a
    by (rule ks(3)[OF that])
  show "trace (kickBySessionId sid (Fn f) cb w) =
      trace w @ closing_events (heap w) (Str ''kick'') a @ [NextTick (Invoke (Fn f) None)]"
    if "sessions w sid = Some a" "state (heap w a) = ST_INITED" for a
    by (rule ks(4)[OF that])
  show "sessions (kickBySessionId sid (Fn f) cb w) = (sessions w)(sid := None)"
    if "sessions w sid = Some a" "state (heap w a) = ST_INITED" "id' (heap w a) = sid" for a
    by (rule ks(5)[OF that])
qed

text \<open>
  Sessions 1 and 2 bound to uid 42: kick(42, f) closes both with the reason \<open>'kick'\<close>, and
  kickBySessionId(2, f) closes Session 2 alone; \<open>f\<close> is scheduled last.
\<close>

theorem kick_default_reason_witness:
  "registry_inv (run [Create 1 ''f1'' 5, Create 2 ''f1'' 6, Bind 1 42 (Fn 0), Bind 2 42 (Fn 1)]
       (SessionService False)) \<and>
   uidMap (run [Create 1 ''f1'' 5, Create 2 ''f1'' 6, Bind 1 42 (Fn 0), Bind 2 42 (Fn 1)]
       (SessionService False)) 42 = Some [0, 1] \<and> sessions (run [Create 1 ''f1'' 5, Create 2 ''f1'' 6, Bind 1 42 (Fn 0), Bind 2 42 (Fn 1)]
       (SessionService False)) 2 = Some 1 \<and>
   fst (kick 42 (Fn 3) Undefined (run [Create 1 ''f1'' 5, Create 2 ''f1'' 6, Bind 1 42 (Fn 0), Bind 2 42 (Fn 1)]
       (SessionService False))) = None \<and>
   uidMap (snd (kick 42 (Fn 3) Undefined (run [Create 1 ''f1'' 5, Create 2 ''f1'' 6, Bind 1 42 (Fn 0), Bind 2 42 (Fn 1)]
       (SessionService False)))) 42 = None \<and>
   sessions (snd (kick 42 (Fn 3) Undefined (run [Create 1 ''f1'' 5, Create 2 ''f1'' 6, Bind 1 42 (Fn 0), Bind 2 42 (Fn 1)]
       (SessionService False)))) 1 = None \<and>
   sessions (snd (kick 42 (Fn 3) Undefined (run [Create 1 ''f1'' 5, Create 2 ''f1'' 6, Bind 1 42 (Fn 0), Bind 2 42 (Fn 1)]
       (SessionService False)))) 2 = None \<and>
   trace (snd (kick 42 (Fn 3) Undefined (run [Create 1 ''f1'' 5, Create 2 ''f1'' 6, Bind 1 42 (Fn 0), Bind 2 42 (Fn 1)]
       (SessionService False)))) =
     [EmitBind 0 42, NextTick (Call (Fn 0) None), EmitBind 1 42, NextTick (Call (Fn 1) None),
      EmitClosed 0 \<lparr>fs_id = 1, fs_frontendId = ''f1'', fs_uid = Some 42, fs_settings = [],
                     fs_session = 0\<rparr> (Str ''kick''),
      SocketClosing 5 (Str ''kick''), NextTick (Disconnect 5),
      EmitClosed 1 \<lparr>fs_id = 2, fs_frontendId = ''f1'', fs_uid = Some 42, fs_settings = [],
                     fs_session = 1\<rparr> (Str ''kick''),
      SocketClosing 6 (Str ''kick''), NextTick (Disconnect 6),
      NextTick (Invoke (Fn 3) None)] \<and>
   sessions (kickBySessionId 2 (Fn 3) Undefined (run [Create 1 ''f1'' 5, Create 2 ''f1'' 6, Bind 1 42 (Fn 0), Bind 2 42 (Fn 1)]
       (SessionService False))) 2 = None \<and>
   uidMap (kickBySessionId 2 (Fn 3) Undefined (run [Create 1 ''f1'' 5, Create 2 ''f1'' 6, Bind 1 42 (Fn 0), Bind 2 42 (Fn 1)]
       (SessionService False))) 42 = Some [0] \<and>
   trace (kickBySessionId 2 (Fn 3) Undefined (run [Create 1 ''f1'' 5, Create 2 ''f1'' 6, Bind 1 42 (Fn 0), Bind 2 42 (Fn 1)]
       (SessionService False))) =
     [EmitBind 0 42, NextTick (Call (Fn 0) None), EmitBind 1 42, NextTick (Call (Fn 1) None),
      EmitClosed 1 \<lparr>fs_id = 2, fs_frontendId = ''f1'', fs_uid = Some 42, fs_settings = [],
                     fs_session = 1\<rparr> (Str ''kick''),
      SocketClosing 6 (Str ''kick''), NextTick (Disconnect 6),
      NextTick (Invoke (Fn 3) None)]"
proof -
  let ?xs = "[Create 1 ''f1'' 5, Create 2 ''f1'' 6, Bind 1 42 (Fn 0), Bind 2 42 (Fn 1)]"
  let ?w = "run ?xs (SessionService False)"
  have "disciplined ?xs (SessionService False)" by (simp add: SessionService_def)
  then have inv: "registry_inv ?w" using good_run[OF good_SessionService] by blast
  have ev: "uidMap ?w 42 = Some [0, 1] \<and> sessions ?w 2 = Some 1 \<and>
   fst (kick 42 (Fn 3) Undefined ?w) = None \<and>
   uidMap (snd (kick 42 (Fn 3) Undefined ?w)) 42 = None \<and>
   sessions (snd (kick 42 (Fn 3) Undefined ?w)) 1 = None \<and>
   sessions (snd (kick 42 (Fn 3) Undefined ?w)) 2 = None \<and>
   trace (snd (kick 42 (Fn 3) Undefined ?w)) =
     [EmitBind 0 42, NextTick (Call (Fn 0) None), EmitBind 1 42, NextTick (Call (Fn 1) None),
      EmitClosed 0 \<lparr>fs_id = 1, fs_frontendId = ''f1'', fs_uid = Some 42, fs_settings = [],
                     fs_session = 0\<rparr> (Str ''kick''),
      SocketClosing 5 (Str ''kick''), NextTick (Disconnect 5),
      EmitClosed 1 \<lparr>fs_id = 2, fs_frontendId = ''f1'', fs_uid = Some 42, fs_settings = [],
                     fs_session = 1\<rparr> (Str ''kick''),
      SocketClosing 6 (Str ''kick''), NextTick (Disconnect 6),
      NextTick (Invoke (Fn 3) None)] \<and>
   sessions (kickBySessionId 2 (Fn 3) Undefined ?w) 2 = None \<and>
   uidMap (kickBySessionId 2 (Fn 3) Undefined ?w) 42 = Some [0] \<and>
   trace (kickBySessionId 2 (Fn 3) Undefined ?w) =
     [EmitBind 0 42, NextTick (Call (Fn 0) None), EmitBind 1 42, NextTick (Call (Fn 1) None),
      EmitClosed 1 \<lparr>fs_id = 2, fs_frontendId = ''f1'', fs_uid = Some 42, fs_settings = [],
                     fs_session = 1\<rparr> (Str ''kick''),
      SocketClosing 6 (Str ''kick''), NextTick (Disconnect 6),
      NextTick (Invoke (Fn 3) None)]"
    using kick_default_reason[where u = 42 and f = 3 and cb = Undefined and w = "?w" and sid = 2]
    by (simp add: eval_defs)
  from inv ev show ?thesis by blast
qed

section \<open>bind\<close>

text \<open>
  Claim C1, amended. For a callback that is a function and a Session whose uid is not the
  number \<open>0\<close>, bind decides in this order: an unregistered sid is answered
  \<open>SessionNotFound\<close>; a Session bound to the given uid is a success that changes nothing; a
  Session bound to another uid is answered \<open>AlreadyBound\<close>; with singleSession and a bucket
  for the uid the answer is \<open>SingleSessionViolation\<close>; a bucket that already holds a Session
  with the same id is a success that changes nothing; otherwise the Session is appended to
  the bucket, its uid is set, \<open>bind\<close> is emitted and the callback is scheduled without an error.
\<close>

theorem bind_precedence:
  assumes cb: "isFunction cb"
    and nz: "\<forall>a. sessions w sid = Some a \<longrightarrow> uid (heap w a) \<noteq> Some 0"
  shows
    "(sessions w sid = None \<longrightarrow>
        bind sid u cb w = (None, emit (NextTick (Call cb (Some (SessionNotFound sid)))) w)) \<and>
     (\<forall>a. sessions w sid = Some a \<longrightarrow>
        (uid (heap w a) = Some u \<longrightarrow> bind sid u cb w = (None, emit (Now cb None) w)) \<and>
        (uid (heap w a) \<noteq> Some u \<and> uid (heap w a) \<noteq> None \<longrightarrow>
           bind sid u cb w =
             (None, emit (NextTick (Call cb (Some (AlreadyBound (uid (heap w a)))))) w)) \<and>
        (uid (heap w a) = None \<and> singleSession w \<and> uidMap w u \<noteq> None \<longrightarrow>
           bind sid u cb w =
             (None, emit (NextTick (Call cb (Some (SingleSessionViolation u)))) w)) \<and>
        (uid (heap w a) = None \<and> \<not> singleSession w \<and>
         (\<exists>b x. uidMap w u = Some b \<and> x \<in> set b \<and> id' (heap w x) = id' (heap w a)) \<longrightarrow>
           bind sid u cb w = (None, emit (NextTick (Call cb None)) w)) \<and>
        (uid (heap w a) = None \<and> \<not> (singleSession w \<and> uidMap w u \<noteq> None) \<and>
         \<not> (\<exists>b x. uidMap w u = Some b \<and> x \<in> set b \<and> id' (heap w x) = id' (heap w a)) \<longrightarrow>
           bind sid u cb w =
             (None, emit (NextTick (Call cb None)) (emit (EmitBind a u)
                (w\<lparr>uidMap := (uidMap w)
                       (u \<mapsto> (case uidMap w u of None \<Rightarrow> [] | Some b \<Rightarrow> b) @ [a]),
                   heap := (heap w)(a := (heap w a)\<lparr>uid := Some u\<rparr>)\<rparr>)))))"
proof (intro conjI allI impI)
  assume "sessions w sid = None"
  then show "bind sid u cb w = (None, emit (NextTick (Call cb (Some (SessionNotFound sid)))) w)"
    by (simp add: bind_def)
next
  fix a assume reg: "sessions w sid = Some a" and "uid (heap w a) = Some u"
  then show "bind sid u cb w = (None, emit (Now cb None) w)"
    using cb nz by (simp add: bind_def Let_def)
next
  fix a assume reg: "sessions w sid = Some a"
    and "uid (heap w a) \<noteq> Some u \<and> uid (heap w a) \<noteq> None"
  then show "bind sid u cb w =
      (None, emit (NextTick (Call cb (Some (AlreadyBound (uid (heap w a)))))) w)"
    using nz by (simp add: bind_def Let_def truthy_uid_iff)
next
  fix a assume reg: "sessions w sid = Some a"
    and "uid (heap w a) = None \<and> singleSession w \<and> uidMap w u \<noteq> None"
  then show "bind sid u cb w =
      (None, emit (NextTick (Call cb (Some (SingleSessionViolation u)))) w)"
    by (auto simp: bind_def Let_def)
next
  fix a assume reg: "sessions w sid = Some a"
    and c: "uid (heap w a) = None \<and> \<not> singleSession w \<and>
      (\<exists>b x. uidMap w u = Some b \<and> x \<in> set b \<and> id' (heap w x) = id' (heap w a))"
  then obtain b where b: "uidMap w u = Some b" "has_id (heap w) (id' (heap w a)) b"
    by (auto simp: has_id_iff)
  then show "bind sid u cb w = (None, emit (NextTick (Call cb None)) w)"
    using reg c by (simp add: bind_def Let_def uidMap_same)
next
  fix a assume reg: "sessions w sid = Some a"
    and c: "uid (heap w a) = None \<and> \<not> (singleSession w \<and> uidMap w u \<noteq> None) \<and>
      \<not> (\<exists>b x. uidMap w u = Some b \<and> x \<in> set b \<and> id' (heap w x) = id' (heap w a))"
  have t: "truthy cb" using cb by (cases cb) simp_all
  show "bind sid u cb w =
      (None, emit (NextTick (Call cb None)) (emit (EmitBind a u)
         (w\<lparr>uidMap := (uidMap w)
                (u \<mapsto> (case uidMap w u of None \<Rightarrow> [] | Some b \<Rightarrow> b) @ [a]),
            heap := (heap w)(a := (heap w a)\<lparr>uid := Some u\<rparr>)\<rparr>)))"
  proof (cases "uidMap w u")
    case None
    then show ?thesis using reg c t by (simp add: bind_def Let_def Session_bind_def emit_def)
  next
    case (Some b)
    then have "\<not> has_id (heap w) (id' (heap w a)) b" using c by (auto simp: has_id_iff)
    then show ?thesis using Some reg c t
      by (simp add: bind_def Let_def Session_bind_def emit_def)
  qed
qed

text \<open>
  With sid 1 bound to uid 42 and sid 2 unbound: binding 2 to 42, binding 1 to 42 again,
  binding 1 to 43, and binding the unregistered sid 3.
\<close>

theorem bind_precedence_witness:
  "isFunction (Fn 1) \<and>
   sessions (run [Create 1 ''f1'' 0, Create 2 ''f1'' 1, Bind 1 42 (Fn 0)] (SessionService False)) 2
     = Some 1 \<and>
   uid (heap (run [Create 1 ''f1'' 0, Create 2 ''f1'' 1, Bind 1 42 (Fn 0)]
     (SessionService False)) 1) = None \<and>
   trace (snd (bind 2 42 (Fn 1)
     (run [Create 1 ''f1'' 0, Create 2 ''f1'' 1, Bind 1 42 (Fn 0)] (SessionService False)))) =
     [EmitBind 0 42, NextTick (Call (Fn 0) None), EmitBind 1 42, NextTick (Call (Fn 1) None)] \<and>
   uidMap (snd (bind 2 42 (Fn 1)
     (run [Create 1 ''f1'' 0, Create 2 ''f1'' 1, Bind 1 42 (Fn 0)] (SessionService False)))) 42 =
     Some [0, 1] \<and>
   bind 1 42 (Fn 1)
     (run [Create 1 ''f1'' 0, Create 2 ''f1'' 1, Bind 1 42 (Fn 0)] (SessionService False)) =
     (None, emit (Now (Fn 1) None)
       (run [Create 1 ''f1'' 0, Create 2 ''f1'' 1, Bind 1 42 (Fn 0)] (SessionService False))) \<and>
   bind 1 43 (Fn 1)
     (run [Create 1 ''f1'' 0, Create 2 ''f1'' 1, Bind 1 42 (Fn 0)] (SessionService False)) =
     (None, emit (NextTick (Call (Fn 1) (Some (AlreadyBound (Some 42)))))
       (run [Create 1 ''f1'' 0, Create 2 ''f1'' 1, Bind 1 42 (Fn 0)] (SessionService False))) \<and>
   bind 3 42 (Fn 1)
     (run [Create 1 ''f1'' 0, Create 2 ''f1'' 1, Bind 1 42 (Fn 0)] (SessionService False)) =
     (None, emit (NextTick (Call (Fn 1) (Some (SessionNotFound 3))))
       (run [Create 1 ''f1'' 0, Create 2 ''f1'' 1, Bind 1 42 (Fn 0)] (SessionService False)))"
proof -
  let ?w = "run [Create 1 ''f1'' 0, Create 2 ''f1'' 1, Bind 1 42 (Fn 0)] (SessionService False)"
  have f: "isFunction (Fn 1)" by simp
  have s: "sessions ?w 1 = Some 0" "sessions ?w 2 = Some 1" "sessions ?w 3 = None"
    and u: "uid (heap ?w 0) = Some 42" "uid (heap ?w 1) = None"
    and m: "uidMap ?w 42 = Some [0]" and i: "id' (heap ?w 0) = 1" "id' (heap ?w 1) = 2"
    and sg: "\<not> singleSession ?w"
    and t: "trace ?w = [EmitBind 0 42, NextTick (Call (Fn 0) None)]"
    by (simp_all add: eval_defs)
  have nz: "\<forall>a. sessions ?w sid = Some a \<longrightarrow> uid (heap ?w a) \<noteq> Some 0" for sid
    by (simp add: eval_defs)
  have a: "bind 3 42 (Fn 1) ?w = (None, emit (NextTick (Call (Fn 1) (Some (SessionNotFound 3)))) ?w)"
    using bind_precedence[where cb = "Fn 1" and w = "?w" and sid = 3 and u = 42, OF f nz] s(3) by blast
  have b: "bind 1 42 (Fn 1) ?w = (None, emit (Now (Fn 1) None) ?w)"
    using bind_precedence[where cb = "Fn 1" and w = "?w" and sid = 1 and u = 42, OF f nz] s(1) u(1) by blast
  have c: "bind 1 43 (Fn 1) ?w =
      (None, emit (NextTick (Call (Fn 1) (Some (AlreadyBound (Some 42))))) ?w)"
    using bind_precedence[where cb = "Fn 1" and w = "?w" and sid = 1 and u = 43, OF f nz] s(1) u(1) by auto
  have "\<not> (\<exists>b x. uidMap ?w 42 = Some b \<and> x \<in> set b \<and> id' (heap ?w x) = id' (heap ?w 1))"
    using m i by auto
  then have d: "bind 2 42 (Fn 1) ?w =
      (None, emit (NextTick (Call (Fn 1) None)) (emit (EmitBind 1 42)
         (?w\<lparr>uidMap := (uidMap ?w)
                (42 \<mapsto> (case uidMap ?w 42 of None \<Rightarrow> [] | Some b \<Rightarrow> b) @ [1]),
             heap := (heap ?w)(1 := (heap ?w 1)\<lparr>uid := Some 42\<rparr>)\<rparr>)))"
    using bind_precedence[where cb = "Fn 1" and w = "?w" and sid = 2 and u = 42, OF f nz] s(2) u(2) sg by blast
  have d1: "trace (snd (bind 2 42 (Fn 1) ?w)) =
      [EmitBind 0 42, NextTick (Call (Fn 0) None), EmitBind 1 42, NextTick (Call (Fn 1) None)]"
    unfolding d using t by simp
  have d2: "uidMap (snd (bind 2 42 (Fn 1) ?w)) 42 = Some [0, 1]"
    unfolding d using m by simp
  show ?thesis using f s(2) u(2) a b c d1 d2 by blast
qed

text \<open>
  Claim C1 as stated lets every call that passes the first four checks append the Session.
  After create(1), bind(1, 7) and a second create(1), the Session registered under sid 1 has
  no uid and singleSession is off, yet bind(1, 7) appends nothing and sets no uid: the
  bucket of 7 already holds a Session with the id 1.
\<close>

theorem bind_duplicate_guard_counterexample:
  "sessions (run [Create 1 ''f1'' 0, Bind 1 7 (Fn 0), Create 1 ''f1'' 1] (SessionService False)) 1
     = Some 1 \<and>
   uid (heap (run [Create 1 ''f1'' 0, Bind 1 7 (Fn 0), Create 1 ''f1'' 1]
     (SessionService False)) 1) = None \<and>
   \<not> singleSession (run [Create 1 ''f1'' 0, Bind 1 7 (Fn 0), Create 1 ''f1'' 1]
     (SessionService False)) \<and>
   uidMap (snd (bind 1 7 (Fn 1)
     (run [Create 1 ''f1'' 0, Bind 1 7 (Fn 0), Create 1 ''f1'' 1] (SessionService False)))) 7
     = Some [0] \<and>
   uid (heap (snd (bind 1 7 (Fn 1)
     (run [Create 1 ''f1'' 0, Bind 1 7 (Fn 0), Create 1 ''f1'' 1] (SessionService False)))) 1)
     = None \<and>
   trace (snd (bind 1 7 (Fn 1)
     (run [Create 1 ''f1'' 0, Bind 1 7 (Fn 0), Create 1 ''f1'' 1] (SessionService False)))) =
     [EmitBind 0 7, NextTick (Call (Fn 0) None), NextTick (Call (Fn 1) None)]"
  by (simp add: eval_defs)

section \<open>The example stores\<close>

lemma session_mem_eval:
  "nextobj session_mem = 4"
  "objs session_mem 2 =
     [(''id'', Num 1), (''frontendId'', Str ''f1''), (''uid'', Num 7), (''settings'', Ref 3),
      (''__socket__'', Ref 0), (''__sessionService__'', Ref 1), (''__state__'', Num 0)]"
  "objs session_mem 3 = [(''score'', Num 10)]"
  by (simp_all add: session_mem_def Session_new_def alloc_def setprop_def Let_def)

lemma frontend_mem_eval:
  "nextobj frontend_mem = 6"
  "objs frontend_mem 2 = objs session_mem 2"
  "objs frontend_mem 3 = objs session_mem 3"
  "objs frontend_mem 4 =
     [(''id'', Num 1), (''frontendId'', Str ''f1''), (''uid'', Num 7),
      (''__sessionService__'', Ref 1), (''settings'', Ref 5), (''__session__'', Ref 2)]"
  "objs frontend_mem 5 = [(''score'', Num 10)]"
  by (simp_all add: frontend_mem_def FrontendSession_def alloc_def setprop_def clone_def
      dclone_val_def dclone_def getprop_def FRONTEND_SESSION_FIELDS_def Let_def session_mem_eval)

lemma nested_mem_eval:
  "nextobj nested_mem = 7"
  "objs nested_mem 3 = [(''score'', Num 10), (''profile'', Ref 4)]"
  "objs nested_mem 4 = [(''level'', Num 1)]"
  "objs nested_mem 5 =
     [(''id'', Num 1), (''frontendId'', Str ''f1''), (''uid'', Num 7),
      (''__sessionService__'', Ref 1), (''settings'', Ref 6), (''__session__'', Ref 2)]"
  "objs nested_mem 6 = [(''score'', Num 10), (''profile'', Ref 4)]"
  by (simp_all add: nested_mem_def FrontendSession_def alloc_def setprop_def clone_def
      dclone_val_def dclone_def getprop_def FRONTEND_SESSION_FIELDS_def Let_def session_mem_eval)

section \<open>FrontendSession.export\<close>

text \<open>
  Claim C9. For every existing FrontendSession object, export returns a new object whose
  own properties are exactly \<open>id\<close>, \<open>frontendId\<close>, \<open>uid\<close> and \<open>settings\<close>, in this order, each with
  the value the FrontendSession has under that name; no other object changes.
\<close>

theorem export_fields:
  assumes "this < nextobj m"
  shows "map fst (objs (snd (export this m)) (fst (export this m))) = EXPORTED_SESSION_FIELDS \<and>
         (\<forall>f \<in> set EXPORTED_SESSION_FIELDS.
            getprop (objs (snd (export this m)) (fst (export this m))) f =
              getprop (objs m this) f) \<and>
         fst (export this m) = nextobj m \<and>
         (\<forall>a. a \<noteq> fst (export this m) \<longrightarrow> objs (snd (export this m)) a = objs m a)"
proof -
  from assms have ne: "this \<noteq> nextobj m" by simp
  have e: "objs (snd (export this m)) =
      (objs m)(nextobj m := [(''id'', getprop (objs m this) ''id''),
                             (''frontendId'', getprop (objs m this) ''frontendId''),
                             (''uid'', getprop (objs m this) ''uid''),
                             (''settings'', getprop (objs m this) ''settings'')])"
    and f: "fst (export this m) = nextobj m"
    using ne by (simp_all add: export_def alloc_def clone_def setprop_def
        EXPORTED_SESSION_FIELDS_def)
  show ?thesis unfolding e f by (simp add: EXPORTED_SESSION_FIELDS_def getprop_def)
qed

text \<open>
  The example of the specification: settings \<open>{score: 10}\<close> and uid 7 give
  \<open>{id, frontendId, uid: 7, settings: {score: 10}}\<close>.
\<close>

theorem export_fields_witness:
  "4 < nextobj frontend_mem \<and>
   objs frontend_mem 4 =
     [(''id'', Num 1), (''frontendId'', Str ''f1''), (''uid'', Num 7),
      (''__sessionService__'', Ref 1), (''settings'', Ref 5), (''__session__'', Ref 2)] \<and>
   objs (snd (export 4 frontend_mem)) (fst (export 4 frontend_mem)) =
     [(''id'', Num 1), (''frontendId'', Str ''f1''), (''uid'', Num 7), (''settings'', Ref 5)] \<and>
   objs (snd (export 4 frontend_mem)) 5 = [(''score'', Num 10)]"
  using export_fields[of 4 frontend_mem]
  by (simp add: export_def alloc_def clone_def setprop_def getprop_def
      EXPORTED_SESSION_FIELDS_def frontend_mem_eval)

section \<open>Session.remove\<close>

text \<open>
  Claim C8, amended. Session.remove(key) deletes the own property \<open>key\<close> of the Session
  object and nothing of the settings store: for every key other than \<open>settings\<close>, the
  \<open>settings\<close> field and every other object are unchanged, get returns for every name what it
  returned before, the property \<open>key\<close> of the Session (an identity field such as \<open>uid\<close>
  included) is gone and reads \<open>undefined\<close>, and every other field keeps its value.
\<close>

theorem Session_remove_keeps_settings:
  assumes "key \<noteq> ''settings''"
  shows "getprop (objs (Session_remove this key m) this) ''settings'' =
           getprop (objs m this) ''settings'' \<and>
         (\<forall>a. a \<noteq> this \<longrightarrow> objs (Session_remove this key m) a = objs m a) \<and>
         (getprop (objs m this) ''settings'' \<noteq> Ref this \<longrightarrow>
            (\<forall>k. Session_get this k (Session_remove this key m) = Session_get this k m)) \<and>
         map_of (objs (Session_remove this key m) this) key = None \<and>
         getprop (objs (Session_remove this key m) this) key = Undefined \<and>
         (\<forall>f. f \<noteq> key \<longrightarrow>
            getprop (objs (Session_remove this key m) this) f = getprop (objs m this) f)"
proof -
  have other: "map_of (del key obj) f = map_of obj f" if "f \<noteq> key" for obj f
    using that by (induction obj) (auto simp: del_def)
  have gone: "map_of (del key obj) key = None" for obj
    by (induction obj) (auto simp: del_def)
  have o: "objs (Session_remove this key m) = (objs m)(this := del key (objs m this))"
    by (simp add: Session_remove_def delprop_def)
  have keep: "getprop (objs (Session_remove this key m) this) f = getprop (objs m this) f"
    if "f \<noteq> key" for f
    using that by (simp add: o getprop_def other)
  have st: "getprop (objs (Session_remove this key m) this) ''settings'' =
      getprop (objs m this) ''settings''"
    using assms keep[of "''settings''"] by simp
  have get: "Session_get this k (Session_remove this key m) = Session_get this k m"
    if "getprop (objs m this) ''settings'' \<noteq> Ref this" for k
  proof (cases "getprop (objs m this) ''settings''")
    case (Ref s)
    with that have "s \<noteq> this" by simp
    then show ?thesis unfolding Session_get_def st Ref by (simp add: o)
  qed (simp_all add: Session_get_def st)
  show ?thesis using st keep get gone by (simp add: o getprop_def)
qed

text \<open>remove('uid') on the example Session: the uid is gone, \<open>score\<close> is still read.\<close>

theorem Session_remove_keeps_settings_witness:
  "''uid'' \<noteq> ''settings'' \<and>
   Session_get 2 ''score'' session_mem = Inr (Num 10) \<and>
   Session_get 2 ''score'' (Session_remove 2 ''uid'' session_mem) = Inr (Num 10) \<and>
   getprop (objs session_mem 2) ''uid'' = Num 7 \<and>
   getprop (objs (Session_remove 2 ''uid'' session_mem) 2) ''uid'' = Undefined \<and>
   objs (Session_remove 2 ''uid'' session_mem) 3 = objs session_mem 3"
  using Session_remove_keeps_settings[of "''uid''" 2 session_mem]
  by (simp add: Session_get_def Session_remove_def delprop_def del_def getprop_def
      session_mem_eval)

text \<open>
  Claim C8 as stated, for every key, fails at the key \<open>settings\<close>: remove('settings')
  deletes the settings field itself, and get('score'), which returned 10, throws.
\<close>

theorem Session_remove_settings_counterexample:
  "Session_get 2 ''score'' session_mem = Inr (Num 10) \<and>
   Session_get 2 ''score'' (Session_remove 2 ''settings'' session_mem) = Inl TypeError \<and>
   getprop (objs session_mem 2) ''settings'' = Ref 3 \<and>
   getprop (objs (Session_remove 2 ''settings'' session_mem) 2) ''settings'' = Undefined"
  by (simp add: Session_get_def Session_remove_def delprop_def del_def getprop_def
      session_mem_eval)

section \<open>The settings of a FrontendSession\<close>

text \<open>
  Claim C7 says that the settings of a FrontendSession are a deep copy, so that a later
  change of a value nested inside a settings entry of the Session is not reflected. The
  copy shares the nested object: with \<open>profile: {level: 1}\<close> in the settings of the Session,
  the FrontendSession made from it refers to the same object under \<open>profile\<close>, and after
  \<open>level\<close> is set to 2 through the Session the FrontendSession reads 2.
\<close>

theorem dclone_is_shallow:
  "getprop (objs nested_mem 3) ''profile'' = Ref 4 \<and>
   getprop (objs nested_mem 5) ''settings'' = Ref 6 \<and>
   getprop (objs nested_mem 6) ''profile'' = Ref 4 \<and>
   readprop nested_mem (Ref 4) ''level'' = Inr (Num 1) \<and>
   readprop (setprop 4 ''level'' (Num 2) nested_mem)
     (getprop (objs (setprop 4 ''level'' (Num 2) nested_mem) 6) ''profile'') ''level'' =
     Inr (Num 2)"
  by (simp add: setprop_def getprop_def nested_mem_eval)

lemma map_of_put: "map_of (put k v obj) = (map_of obj)(k \<mapsto> v)"
  by (induction obj) (auto simp: fun_eq_iff)

lemma map_of_fold_put:
  "map_of (fold (\<lambda>f res. put f (g f) res) ks acc) =
     (\<lambda>k. if k \<in> set ks then Some (g k) else map_of acc k)"
proof (induction ks arbitrary: acc)
  case Nil
  then show ?case by simp
next
  case (Cons x ks)
  show ?case by (auto simp: Cons.IH map_of_put fun_eq_iff)
qed

text \<open>dclone copies the top level: the copy reads like the source, property by property.\<close>

lemma dclone_reads: "getprop (dclone src) k = getprop src k"
proof -
  have "map_of (dclone src) k = map_of src k"
  proof (cases "map_of src k")
    case None
    then have "k \<notin> fst ` set src" by (simp add: map_of_eq_None_iff)
    then show ?thesis using None by (simp add: dclone_def map_of_fold_put)
  next
    case (Some v)
    then have "k \<in> fst ` set src" by (metis map_of_eq_None_iff option.distinct(1))
    then show ?thesis using Some by (simp add: dclone_def map_of_fold_put getprop_def)
  qed
  then show ?thesis by (simp add: getprop_def)
qed

text \<open>
  The settings of a new FrontendSession are a new object that reads like the settings of
  the Session; a later \<open>settings[k] = v\<close> on the Session does not reach it.
\<close>

lemma FrontendSession_settings_copy:
  assumes "session < nextobj m" "getprop (objs m session) ''settings'' = Ref s" "s < nextobj m"
  shows "getprop (objs (snd (FrontendSession session m)) (fst (FrontendSession session m)))
           ''settings'' = Ref (Suc (nextobj m)) \<and>
         (\<forall>k. getprop (objs (snd (FrontendSession session m)) (Suc (nextobj m))) k =
               getprop (objs m s) k) \<and>
         (\<forall>k v. objs (setprop s k v (snd (FrontendSession session m))) (Suc (nextobj m)) =
               objs (snd (FrontendSession session m)) (Suc (nextobj m)))"
proof -
  from assms have ne: "session \<noteq> nextobj m" "s \<noteq> nextobj m" "s \<noteq> Suc (nextobj m)"
    "session \<noteq> Suc (nextobj m)" by simp_all
  have c: "objs (clone session (nextobj m) fs m') session = objs m' session"
    "nextobj (clone session (nextobj m) fs m') = nextobj m'"
    "objs (clone session (nextobj m) fs m') s = objs m' s" for fs m'
    using ne by (induction fs arbitrary: m'; simp add: clone_def setprop_def)+
  have f: "fst (FrontendSession session m) = nextobj m"
    by (simp add: FrontendSession_def alloc_def Let_def dclone_val_def split: prod.splits)
  have o: "objs (snd (FrontendSession session m)) (Suc (nextobj m)) = dclone (objs m s)"
    using ne assms(2)
    by (simp add: FrontendSession_def alloc_def Let_def dclone_val_def c setprop_def
        split: prod.splits)
  have st: "getprop (objs (snd (FrontendSession session m)) (nextobj m)) ''settings'' =
      Ref (Suc (nextobj m))"
    using ne
    by (simp add: FrontendSession_def alloc_def Let_def dclone_val_def c setprop_def getprop_def
        map_of_put split: prod.splits)
  show ?thesis using ne by (simp add: f o st dclone_reads setprop_def)
qed

end
